theory Spec2Isabelle
  imports Complex_Main "HOL-Library.Product_Lexorder" "HOL-Library.Multiset"
begin
section \<open>Cell values\<close>

text \<open>
  A cell of a DataFrame is a float64.  The model keeps the three special values apart
  and computes on the finite ones in exact arithmetic: rounding, overflow and the sign
  of zero are not modelled.  Comparisons with \<open>NaN\<close> are false, as in numpy.
\<close>

datatype flt = NaN | NInf | Fin real | PInf

fun flt_lt :: "flt \<Rightarrow> flt \<Rightarrow> bool" where
  "flt_lt (Fin a) (Fin b) = (a < b)"
| "flt_lt (Fin a) PInf = True"
| "flt_lt NInf (Fin b) = True"
| "flt_lt NInf PInf = True"
| "flt_lt _ _ = False"

definition flt_gt :: "flt \<Rightarrow> flt \<Rightarrow> bool" where
  "flt_gt a b = flt_lt b a"

text \<open>numpy's true division: \<open>x / 0\<close> is an infinity of the sign of \<open>x\<close>, and
  \<open>0 / 0\<close>, \<open>inf / inf\<close> and every quotient with a \<open>NaN\<close> are \<open>NaN\<close>.\<close>

fun flt_div :: "flt \<Rightarrow> flt \<Rightarrow> flt" where
  "flt_div NaN _ = NaN"
| "flt_div _ NaN = NaN"
| "flt_div (Fin a) (Fin b) =
     (if b \<noteq> 0 then Fin (a / b) else if 0 < a then PInf else if a < 0 then NInf else NaN)"
| "flt_div (Fin a) _ = Fin 0"
| "flt_div PInf (Fin b) = (if b < 0 then NInf else PInf)"
| "flt_div NInf (Fin b) = (if b < 0 then PInf else NInf)"
| "flt_div _ _ = NaN"

definition flt_min :: "flt \<Rightarrow> flt \<Rightarrow> flt" where
  "flt_min a b = (if flt_lt b a then b else a)"

definition flt_max :: "flt \<Rightarrow> flt \<Rightarrow> flt" where
  "flt_max a b = (if flt_lt a b then b else a)"

text \<open>\<open>Series.min()\<close> and \<open>Series.max()\<close> skip \<open>NaN\<close>; with nothing left the
  result is \<open>NaN\<close>.\<close>

definition nanmin :: "flt list \<Rightarrow> flt" where
  "nanmin xs = (case filter (\<lambda>x. x \<noteq> NaN) xs of [] \<Rightarrow> NaN | y # ys \<Rightarrow> fold flt_min ys y)"

definition nanmax :: "flt list \<Rightarrow> flt" where
  "nanmax xs = (case filter (\<lambda>x. x \<noteq> NaN) xs of [] \<Rightarrow> NaN | y # ys \<Rightarrow> fold flt_max ys y)"

text \<open>\<open>(mask).sum()\<close> of a boolean Series.\<close>

definition count_true :: "bool list \<Rightarrow> nat" where
  "count_true bs = length (filter id bs)"


section \<open>Monthly periods and frames\<close>

text \<open>
  A monthly period is its ordinal \<open>12 * year + (month - 1)\<close>; adding \<open>1\<close> is the next
  month.  A frame is a DataFrame whose rows are the consecutive months from \<open>first\<close>
  on, one cell per column label in every row; \<open>monthly\<close> tells whether the index is a
  PeriodIndex of monthly frequency, which \<open>calc_corr_last12\<close> checks.
\<close>

type_synonym period = int

definition month :: "period \<Rightarrow> int" where
  "month p = p mod 12 + 1"

definition year :: "period \<Rightarrow> int" where
  "year p = p div 12"

record frame =
  monthly :: bool
  first :: period
  labels :: "nat list"
  cells :: "flt list list"

definition index :: "frame \<Rightarrow> period list" where
  "index df = map (\<lambda>i. first df + int i) [0..<length (cells df)]"

definition wf_frame :: "frame \<Rightarrow> bool" where
  "wf_frame df = (distinct (labels df) \<and> list_all (\<lambda>r. length r = length (labels df)) (cells df))"

text \<open>A DataFrame whose index is a subset of the months, as a selection by a boolean
  mask on the rows gives.\<close>

record table =
  index_name :: "string option"
  t_labels :: "nat list"
  entries :: "(period \<times> flt list) list"

datatype error = NotMonthly | IndexError | KeyError | TypeError | AttributeError

text \<open>The objects that the program can mutate are the DataFrames; the store holds them
  by address, and \<open>copy\<close> allocates.\<close>

type_synonym addr = nat
type_synonym store = "frame list"

definition alloc :: "store \<Rightarrow> frame \<Rightarrow> store \<times> addr" where
  "alloc h df = (h @ [df], length h)"

definition copy_df :: "store \<Rightarrow> addr \<Rightarrow> store \<times> addr" where
  "copy_df h a = alloc h (h ! a)"


section \<open>calc\_corr\_last12\<close>

text \<open>
  \<open>rolling(12).corr\<close> of pandas on one window of two columns, in exact arithmetic:
  the covariance scaled to one degree of freedom less, over the root of the product of
  the sample variances.  A window holding a \<open>NaN\<close> or an infinity has too few
  observations and gives \<open>NaN\<close>.
\<close>

fun fin :: "flt \<Rightarrow> real option" where
  "fin (Fin x) = Some x"
| "fin _ = None"

definition roll_mean :: "real list \<Rightarrow> real" where
  "roll_mean xs = sum_list xs / real (length xs)"

definition roll_var :: "real list \<Rightarrow> real" where
  "roll_var xs = sum_list (map (\<lambda>x. (x - roll_mean xs)\<^sup>2) xs) / (real (length xs) - 1)"

definition corr :: "flt list \<Rightarrow> flt list \<Rightarrow> flt" where
  "corr xs ys =
     (case (those (map fin xs), those (map fin ys)) of
        (Some x, Some y) \<Rightarrow>
          (let n = real (length x);
               numerator = (roll_mean (map2 (*) x y) - roll_mean x * roll_mean y) * (n / (n - 1));
               denominator = sqrt (roll_var x * roll_var y)
           in flt_div (Fin numerator) (Fin denominator))
      | _ \<Rightarrow> NaN)"

definition column :: "nat \<Rightarrow> flt list list \<Rightarrow> flt list" where
  "column j rows = map (\<lambda>r. r ! j) rows"

definition window12 :: "nat \<Rightarrow> 'a list \<Rightarrow> 'a list" where
  "window12 i xs = take 12 (drop (i - 11) xs)"

text \<open>\<open>df.rolling(12).corr(other)\<close>: column by column, at every row the correlation
  of the twelve rows ending there; the first eleven rows have no full window.\<close>

definition rolling_corr :: "frame \<Rightarrow> frame \<Rightarrow> frame" where
  "rolling_corr df other =
     df\<lparr>cells := map (\<lambda>i. map (\<lambda>j. if i < 11 then NaN
                                     else corr (window12 i (column j (cells df)))
                                               (window12 i (column j (cells other))))
                             [0..<length (labels df)])
                    [0..<length (cells df)]\<rparr>"

text \<open>\<open>df.iloc[-12:]\<close>\<close>

definition iloc_last12 :: "frame \<Rightarrow> frame" where
  "iloc_last12 df =
     (let d = length (cells df) - 12
      in df\<lparr>first := first df + int d, cells := drop d (cells df)\<rparr>)"

text \<open>\<open>df[df.index.month == m]\<close>: the rows of month \<open>m\<close> with their periods.\<close>

definition month_rows :: "frame \<Rightarrow> int \<Rightarrow> (period \<times> flt list) list" where
  "month_rows df m = filter (\<lambda>(p, r). month p = m) (zip (index df) (cells df))"

text \<open>\<open>df[df.index.month == m] = row\<close>\<close>

definition setitem_month :: "frame \<Rightarrow> int \<Rightarrow> flt list \<Rightarrow> frame" where
  "setitem_month df m row =
     df\<lparr>cells := map (\<lambda>(p, r). if month p = m then row else r) (zip (index df) (cells df))\<rparr>"

text \<open>The loop over the months \<open>1..12\<close>, writing into the frame at \<open>a_other\<close>;
  \<open>.iloc[0]\<close> of an empty selection raises.\<close>

fun spread :: "frame \<Rightarrow> int list \<Rightarrow> addr \<Rightarrow> store \<Rightarrow> (error + unit) \<times> store" where
  "spread df_trecho [] a_other h = (Inr (), h)"
| "spread df_trecho (m # ms) a_other h =
     (case month_rows df_trecho m of
        [] \<Rightarrow> (Inl IndexError, h)
      | (p, row) # _ \<Rightarrow> spread df_trecho ms a_other (h[a_other := setitem_month (h ! a_other) m row]))"

definition calc_corr_last12 :: "addr \<Rightarrow> store \<Rightarrow> (error + table) \<times> store" where
  "calc_corr_last12 df_hist h =
     (if \<not> monthly (h ! df_hist) then (Inl NotMonthly, h)
      else
        let (h1, df_ref) = copy_df h df_hist;
            df_trecho = iloc_last12 (h1 ! df_ref);
            (h2, df_other) = copy_df h1 df_ref
        in case spread df_trecho [1..12] df_other h2 of
             (Inl e, h3) \<Rightarrow> (Inl e, h3)
           | (Inr _, h3) \<Rightarrow>
               (let df_corr = rolling_corr (h3 ! df_ref) (h3 ! df_other)
                in case index df_trecho of
                     [] \<Rightarrow> (Inl IndexError, h3)
                   | _ \<Rightarrow>
                       (Inr \<lparr>index_name = Some ''mes_final'',
                             t_labels = labels df_corr,
                             entries = month_rows df_corr (month (last (index df_trecho)))\<rparr>,
                        h3)))"


section \<open>CorrelacaoAmplitude\<close>

datatype motivo = Gt_max nat int | Lt_min nat int | Ano_utilizado

record rejeitado =
  ano :: int
  correlacao :: flt
  motivo :: motivo

record amplitudes =
  amp_min :: "flt list"
  amp_max :: "flt list"
  escolhido :: "flt list option"

text \<open>The instance: the four parameters of the constructor, and the attributes that
  \<open>fit\<close> sets, \<open>None\<close> until then.  The attributes that the source writes with a
  trailing underscore carry a prime here.\<close>

record model =
  coluna :: nat
  anos_ignorados :: "int list"
  max_lt_min :: int
  max_gt_max :: int
  df_base :: "addr option"
  df_correlacao :: "table option"
  ratio_mes :: "table option"
  correlacao' :: "flt option"
  correlacao_outros' :: "flt list option"
  period_escolhido_ini' :: "period option"
  ano_escolhido' :: "int option"
  anos_rejeitados' :: "rejeitado list option"
  amplitudes' :: "amplitudes option"
  gt_max' :: "nat option"
  lt_min' :: "nat option"
  posicao' :: "nat option"

definition init :: "nat \<Rightarrow> int list \<Rightarrow> int \<Rightarrow> int \<Rightarrow> model" where
  "init c ign lt gt =
     \<lparr>coluna = c, anos_ignorados = ign, max_lt_min = lt, max_gt_max = gt,
      df_base = None, df_correlacao = None, ratio_mes = None, correlacao' = None,
      correlacao_outros' = None, period_escolhido_ini' = None, ano_escolhido' = None,
      anos_rejeitados' = None, amplitudes' = None, gt_max' = None, lt_min' = None,
      posicao' = None\<rparr>"

text \<open>\<open>table[c]\<close>: the column of label \<open>c\<close> as a Series over the periods.\<close>

definition col_pos :: "nat \<Rightarrow> nat list \<Rightarrow> nat option" where
  "col_pos c ls = (case filter (\<lambda>j. ls ! j = c) [0..<length ls] of [] \<Rightarrow> None | j # _ \<Rightarrow> Some j)"

definition getitem_col :: "table \<Rightarrow> nat \<Rightarrow> (period \<times> flt) list option" where
  "getitem_col t c = map_option (\<lambda>j. map (\<lambda>(p, r). (p, r ! j)) (entries t)) (col_pos c (t_labels t))"

text \<open>
  \<open>sort_values(ascending=False)\<close>: descending, the \<open>NaN\<close> entries last in the order
  they had.  Equal values are left in the order they had, as a stable sort leaves them;
  the default kind of pandas, numpy's quicksort, does not promise that order, so this is
  one of the orders it may return, and the statement on the ranked list claims no order
  among equal values.
\<close>

fun desc_key :: "flt \<Rightarrow> nat \<times> real" where
  "desc_key PInf = (0, 0)"
| "desc_key (Fin x) = (1, - x)"
| "desc_key NInf = (2, 0)"
| "desc_key NaN = (3, 0)"

definition sort_values_desc :: "(period \<times> flt) list \<Rightarrow> (period \<times> flt) list" where
  "sort_values_desc s = sort_key (\<lambda>(p, v). desc_key v) s"

text \<open>\<open>df.loc[p]\<close>: the row of period \<open>p\<close>, \<open>KeyError\<close> outside the index.\<close>

definition loc :: "frame \<Rightarrow> period \<Rightarrow> flt list option" where
  "loc df p = (if first df \<le> p \<and> p < first df + int (length (cells df))
               then Some (cells df ! nat (p - first df)) else None)"

text \<open>\<open>df / df.shift(-1)\<close>, then the mask \<open>(0 < r) & (r < inf)\<close>, which leaves
  \<open>NaN\<close> where it is false.\<close>

definition shift_up :: "frame \<Rightarrow> flt list list" where
  "shift_up df = (case cells df of [] \<Rightarrow> [] | r # rs \<Rightarrow> rs @ [replicate (length (labels df)) NaN])"

definition positive_finite :: "flt \<Rightarrow> flt" where
  "positive_finite r = (if flt_lt (Fin 0) r \<and> flt_lt r PInf then r else NaN)"

definition df_ratio :: "frame \<Rightarrow> frame" where
  "df_ratio df = df\<lparr>cells := map (map positive_finite) (map2 (map2 flt_div) (cells df) (shift_up df))\<rparr>"

definition count_gt_max :: "flt list \<Rightarrow> amplitudes \<Rightarrow> nat" where
  "count_gt_max new_ratio amp = count_true (map2 flt_gt new_ratio (amp_max amp))"

definition count_lt_min :: "flt list \<Rightarrow> amplitudes \<Rightarrow> nat" where
  "count_lt_min new_ratio amp = count_true (map2 flt_lt new_ratio (amp_min amp))"

definition reject :: "model \<Rightarrow> rejeitado \<Rightarrow> model" where
  "reject self r = self\<lparr>anos_rejeitados' := map_option (\<lambda>l. l @ [r]) (anos_rejeitados' self)\<rparr>"

text \<open>The loop over the positions \<open>1, ..., len(top_corr) - 1\<close>.\<close>

fun walk :: "frame \<Rightarrow> (period \<times> flt) list \<Rightarrow> nat list \<Rightarrow> model \<Rightarrow> (error + unit) \<times> model" where
  "walk base top_corr [] self = (Inr (), self)"
| "walk base top_corr (posicao # rest) self =
     (let next_period = fst (top_corr ! posicao) + 1
      in case loc base next_period of
           None \<Rightarrow> (Inl KeyError, self)
         | Some candidato \<Rightarrow>
             (case amplitudes' self of
                None \<Rightarrow> (Inl TypeError, self)
              | Some amp \<Rightarrow>
                  (let new_ratio = map2 flt_div candidato (last (cells base));
                       gt_max = count_gt_max new_ratio amp;
                       lt_min = count_lt_min new_ratio amp
                   in if int gt_max > max_gt_max self then
                        walk base top_corr rest
                          (reject self \<lparr>ano = year next_period,
                                        correlacao = snd (top_corr ! posicao),
                                        motivo = Gt_max gt_max (max_gt_max self)\<rparr>)
                      else if int lt_min > max_lt_min self then
                        walk base top_corr rest
                          (reject self \<lparr>ano = year next_period,
                                        correlacao = snd (top_corr ! posicao),
                                        motivo = Lt_min lt_min (max_lt_min self)\<rparr>)
                      else if year next_period \<in> set (anos_ignorados self) then
                        walk base top_corr rest
                          (reject self \<lparr>ano = year next_period,
                                        correlacao = snd (top_corr ! posicao),
                                        motivo = Ano_utilizado\<rparr>)
                      else
                        (Inr (),
                         self\<lparr>posicao' := Some posicao,
                              period_escolhido_ini' := Some next_period,
                              ano_escolhido' := Some (year next_period),
                              amplitudes' := Some (amp\<lparr>escolhido := Some new_ratio\<rparr>),
                              gt_max' := Some gt_max,
                              lt_min' := Some lt_min\<rparr>))))"

text \<open>The bounds of the ratios, lines 243 to 249 of the source.\<close>

definition ratio_mes_of :: "frame \<Rightarrow> table" where
  "ratio_mes_of base =
     (let r = df_ratio base
      in \<lparr>index_name = None, t_labels = labels r,
          entries = month_rows r (month (last (index base)))\<rparr>)"

definition amplitudes_of :: "table \<Rightarrow> amplitudes" where
  "amplitudes_of t =
     \<lparr>amp_min = map (\<lambda>j. nanmin (column j (map snd (entries t)))) [0..<length (t_labels t)],
      amp_max = map (\<lambda>j. nanmax (column j (map snd (entries t)))) [0..<length (t_labels t)],
      escolhido = None\<rparr>"

text \<open>Lines 298 to 301: the lookups at \<open>posicao_\<close>, which is still \<open>None\<close> when
  the loop ended without a \<open>break\<close>.\<close>

definition finish :: "table \<Rightarrow> (period \<times> flt) list \<Rightarrow> model \<Rightarrow> (error + unit) \<times> model" where
  "finish df_corr top_corr self =
     (case posicao' self of
        None \<Rightarrow> (Inl TypeError, self)
      | Some k \<Rightarrow>
          if length top_corr \<le> k then (Inl IndexError, self)
          else
            (let s = self\<lparr>correlacao' := Some (snd (top_corr ! k))\<rparr>
             in case map_of (entries df_corr) (fst (top_corr ! k)) of
                  None \<Rightarrow> (Inl KeyError, s)
                | Some r \<Rightarrow> (Inr (), s\<lparr>correlacao_outros' := Some r\<rparr>)))"

definition fit :: "model \<Rightarrow> addr \<Rightarrow> store \<Rightarrow> (error + unit) \<times> model \<times> store" where
  "fit self df h =
     (let (h1, a_base) = copy_df h df;
          s1 = self\<lparr>df_base := Some a_base\<rparr>
      in case calc_corr_last12 df h1 of
           (Inl e, h2) \<Rightarrow> (Inl e, s1, h2)
         | (Inr df_corr, h2) \<Rightarrow>
             (let s2 = s1\<lparr>df_correlacao := Some df_corr\<rparr>
              in case getitem_col df_corr (coluna s2) of
                   None \<Rightarrow> (Inl KeyError, s2, h2)
                 | Some col \<Rightarrow>
                     (let top_corr = sort_values_desc col;
                          base = h2 ! a_base
                      in case cells base of
                           [] \<Rightarrow> (Inl IndexError, s2, h2)
                         | _ \<Rightarrow>
                             (let rm = ratio_mes_of base;
                                  s3 = s2\<lparr>ratio_mes := Some rm,
                                          amplitudes' := Some (amplitudes_of rm),
                                          anos_rejeitados' := Some []\<rparr>
                              in case walk base top_corr [1..<length top_corr] s3 of
                                   (Inl e, s4) \<Rightarrow> (Inl e, s4, h2)
                                 | (Inr _, s4) \<Rightarrow>
                                     (case finish df_corr top_corr s4 of
                                        (r, s5) \<Rightarrow> (r, s5, h2))))))"

text \<open>\<open>df.loc[p:]\<close> (the whole frame when \<open>p\<close> is \<open>None\<close>) and \<open>df.iloc[:n]\<close>, where a
  negative \<open>n\<close> counts from the end.\<close>

definition loc_from :: "frame \<Rightarrow> period option \<Rightarrow> frame" where
  "loc_from df p =
     (case p of
        None \<Rightarrow> df
      | Some q \<Rightarrow> (let d = nat (q - first df)
                   in df\<lparr>first := first df + int d, cells := drop d (cells df)\<rparr>))"

definition iloc_head :: "frame \<Rightarrow> int \<Rightarrow> frame" where
  "iloc_head df n =
     df\<lparr>cells := (if 0 \<le> n then take (nat n) (cells df)
                   else take (length (cells df) - nat (- n)) (cells df))\<rparr>"

definition predict :: "model \<Rightarrow> int option \<Rightarrow> store \<Rightarrow> (error + addr) \<times> store" where
  "predict self num_meses h =
     (let mes_escolhido_ini = period_escolhido_ini' self
      in case df_base self of
           None \<Rightarrow> (Inl AttributeError, h)
         | Some a \<Rightarrow>
             (case index (h ! a) of
                [] \<Rightarrow> (Inl IndexError, h)
              | _ \<Rightarrow>
                  (let next_month = last (index (h ! a)) + 1
                   in case (if num_meses \<noteq> None \<and> num_meses \<noteq> Some 0 then Inr (the num_meses)
                            else (case mes_escolhido_ini of
                                    None \<Rightarrow> Inl AttributeError
                                  | Some p \<Rightarrow> Inr (13 - month p))) of
                        Inl e \<Rightarrow> (Inl e, h)
                      | Inr n \<Rightarrow>
                          (let df_escolhido = iloc_head (loc_from (h ! a) mes_escolhido_ini) n;
                               (h1, df_trecho_ajust) = alloc h df_escolhido;
                               h2 = h1[df_trecho_ajust :=
                                         (h1 ! df_trecho_ajust)\<lparr>monthly := True, first := next_month\<rparr>]
                           in (Inr df_trecho_ajust, h2)))))"


section \<open>The values computed, without the store\<close>

text \<open>The loop over the months on the frame that it writes, and the table that
  \<open>calc_corr_last12\<close> returns, as functions of the input frame alone.\<close>

fun spread_frame_of :: "frame \<Rightarrow> int list \<Rightarrow> frame \<Rightarrow> (error + unit) \<times> frame" where
  "spread_frame_of df_trecho [] other = (Inr (), other)"
| "spread_frame_of df_trecho (m # ms) other =
     (case month_rows df_trecho m of
        [] \<Rightarrow> (Inl IndexError, other)
      | (p, row) # _ \<Rightarrow> spread_frame_of df_trecho ms (setitem_month other m row))"

definition corr_table_of :: "frame \<Rightarrow> error + table" where
  "corr_table_of df =
     (if \<not> monthly df then Inl NotMonthly
      else case spread_frame_of (iloc_last12 df) [1..12] df of
             (Inl e, other) \<Rightarrow> Inl e
           | (Inr _, other) \<Rightarrow>
               (case index (iloc_last12 df) of
                  [] \<Rightarrow> Inl IndexError
                | _ \<Rightarrow> Inr \<lparr>index_name = Some ''mes_final'',
                            t_labels = labels df,
                            entries = month_rows (rolling_corr df other)
                                        (month (last (index (iloc_last12 df))))\<rparr>))"

text \<open>Row \<open>i\<close> of \<open>df.rolling(12).corr(other)\<close>.\<close>

definition rolling_row :: "frame \<Rightarrow> frame \<Rightarrow> nat \<Rightarrow> flt list" where
  "rolling_row df other i =
     map (\<lambda>j. if i < 11 then NaN
               else corr (window12 i (column j (cells df))) (window12 i (column j (cells other))))
         [0..<length (labels df)]"

text \<open>The cell of station \<open>j\<close> in row \<open>t\<close> of \<open>df_ratio\<close>.\<close>

definition ratio_cell :: "frame \<Rightarrow> nat \<Rightarrow> nat \<Rightarrow> flt" where
  "ratio_cell df j t = positive_finite (flt_div (cells df ! t ! j) (shift_up df ! t ! j))"

text \<open>The instance when the loop over the candidates starts.\<close>

definition before_loop :: "model \<Rightarrow> addr \<Rightarrow> table \<Rightarrow> frame \<Rightarrow> model" where
  "before_loop self a t base =
     self\<lparr>df_base := Some a, df_correlacao := Some t, ratio_mes := Some (ratio_mes_of base),
          amplitudes' := Some (amplitudes_of (ratio_mes_of base)), anos_rejeitados' := Some []\<rparr>"

text \<open>
  The test of the candidate whose next month is \<open>p\<close>: its ratio to the last row, whether
  one of the three checks rejects it, and the instance that accepting it at rank \<open>k\<close>
  leaves.
\<close>

definition candidate_ratio :: "frame \<Rightarrow> period \<Rightarrow> flt list option" where
  "candidate_ratio base p =
     map_option (\<lambda>candidato. map2 flt_div candidato (last (cells base))) (loc base p)"

definition rejects :: "frame \<Rightarrow> amplitudes \<Rightarrow> int \<Rightarrow> int \<Rightarrow> int list \<Rightarrow> period \<Rightarrow> bool" where
  "rejects base amp gt lt ign p =
     (case candidate_ratio base p of
        None \<Rightarrow> False
      | Some ratio \<Rightarrow> gt < int (count_gt_max ratio amp) \<or> lt < int (count_lt_min ratio amp)
                       \<or> year p \<in> set ign)"

definition accepted :: "frame \<Rightarrow> amplitudes \<Rightarrow> (period \<times> flt) list \<Rightarrow> nat \<Rightarrow> model \<Rightarrow> model \<Rightarrow> bool" where
  "accepted base amp tc k s s' =
     (let p = fst (tc ! k) + 1
      in case candidate_ratio base p of
           None \<Rightarrow> False
         | Some ratio \<Rightarrow>
             s' = s\<lparr>posicao' := Some k,
                    period_escolhido_ini' := Some p,
                    ano_escolhido' := Some (year p),
                    amplitudes' := Some (amp\<lparr>escolhido := Some ratio\<rparr>),
                    gt_max' := Some (count_gt_max ratio amp),
                    lt_min' := Some (count_lt_min ratio amp)\<rparr>
             \<and> int (count_gt_max ratio amp) \<le> max_gt_max s
             \<and> int (count_lt_min ratio amp) \<le> max_lt_min s
             \<and> year p \<notin> set (anos_ignorados s))"


text \<open>
  The ratios that the bounds of station \<open>j\<close> are taken over, in the words of the
  specification: the ratios \<open>value[t] / value[t+1]\<close> of the rows \<open>t\<close> that have a next
  row and the calendar month of the last row, as far as they are finite and positive.
\<close>

definition retained_ratios :: "frame \<Rightarrow> nat \<Rightarrow> real list" where
  "retained_ratios df j =
     concat (map (\<lambda>t. case flt_div (cells df ! t ! j) (cells df ! Suc t ! j) of
                          Fin x \<Rightarrow> if 0 < x then [x] else []
                        | _ \<Rightarrow> [])
                 (filter (\<lambda>t. month (first df + int t) = month (last (index df)))
                         [0..<length (cells df) - 1]))"

text \<open>
  The order of the ranked list in the words of the specification, as a test on the
  correlations read by rank: no value is followed by a greater one, and after a \<open>NaN\<close>
  come only \<open>NaN\<close>.  It leaves the order among equal values open, the way a sort that
  is not stable does.
\<close>

fun descending_nan_last :: "flt list \<Rightarrow> bool" where
  "descending_nan_last [] = True"
| "descending_nan_last (v # vs) =
     ((\<forall>w\<in>set vs. \<not> flt_lt v w \<and> (v = NaN \<longrightarrow> w = NaN)) \<and> descending_nan_last vs)"


section \<open>A series of two years\<close>

text \<open>
  January 2000 to December 2001, stations 6 and 74.  The two years of station 6 have
  covariance zero, and its value of December is its value of January; station 74 is
  zero throughout.  \<open>ex_other\<close> is the frame that the loop over the months builds from
  it, \<open>ex_table_val\<close> its correlation table, and \<open>ex_model\<close>, \<open>ex_store\<close> are the
  instance and the store after \<open>fit\<close> with station 6, no excluded year and both limits 0.
\<close>

definition ex_df :: frame where
  "ex_df = \<lparr>monthly = True, first = 24000, labels = [6, 74],
     cells = [[Fin 1, Fin 0], [Fin 1, Fin 0], [Fin 2, Fin 0], [Fin 2, Fin 0],
              [Fin 1, Fin 0], [Fin 1, Fin 0], [Fin 2, Fin 0], [Fin 2, Fin 0],
              [Fin 1, Fin 0], [Fin 1, Fin 0], [Fin 2, Fin 0], [Fin 2, Fin 0],
              [Fin 2, Fin 0], [Fin 1, Fin 0], [Fin 1, Fin 0], [Fin 2, Fin 0],
              [Fin 2, Fin 0], [Fin 1, Fin 0], [Fin 1, Fin 0], [Fin 2, Fin 0],
              [Fin 2, Fin 0], [Fin 1, Fin 0], [Fin 1, Fin 0], [Fin 2, Fin 0]]\<rparr>"

definition ex_other :: frame where
  "ex_other = \<lparr>monthly = True, first = 24000, labels = [6, 74],
      cells =
        [[Fin 2, Fin 0], [Fin 1, Fin 0], [Fin 1, Fin 0], [Fin 2, Fin 0],
         [Fin 2, Fin 0], [Fin 1, Fin 0], [Fin 1, Fin 0], [Fin 2, Fin 0],
         [Fin 2, Fin 0], [Fin 1, Fin 0], [Fin 1, Fin 0], [Fin 2, Fin 0],
         [Fin 2, Fin 0], [Fin 1, Fin 0], [Fin 1, Fin 0], [Fin 2, Fin 0],
         [Fin 2, Fin 0], [Fin 1, Fin 0], [Fin 1, Fin 0], [Fin 2, Fin 0],
         [Fin 2, Fin 0], [Fin 1, Fin 0], [Fin 1, Fin 0], [Fin 2, Fin 0]]\<rparr>"

definition ex_table_val :: table where
  "ex_table_val = \<lparr>index_name = Some ''mes_final'', t_labels = [6, 74],
      entries = [(24011, [Fin 0, NaN]), (24023, [Fin 1, NaN])]\<rparr>"

definition ex_model :: model where
  "ex_model = fst (snd (fit (init 6 [] 0 0) 0 [ex_df]))"

definition ex_store :: store where
  "ex_store = snd (snd (fit (init 6 [] 0 0) 0 [ex_df]))"


section \<open>Properties\<close>

subsection \<open>The store under calc\_corr\_last12\<close>

lemma spread_frame:
  "spread tr ms a h = (r, h') \<Longrightarrow> length h' = length h \<and> (\<forall>b. b \<noteq> a \<longrightarrow> h' ! b = h ! b)"
proof (induction ms arbitrary: h)
  case Nil
  then show ?case by simp
next
  case (Cons m ms)
  show ?case
  proof (cases "month_rows tr m")
    case Nil
    with Cons.prems show ?thesis by simp
  next
    case (Cons pr rest)
    obtain p row where pr: "pr = (p, row)" by (cases pr)
    from Cons.prems Cons pr
    have "spread tr ms a (h[a := setitem_month (h ! a) m row]) = (r, h')" by simp
    from Cons.IH [OF this] show ?thesis by simp
  qed
qed

lemma take_prefix_eq:
  assumes "length h \<le> length h'" and "\<And>b. b < length h \<Longrightarrow> h' ! b = h ! b"
  shows "take (length h) h' = h"
  using assms by (intro nth_equalityI) simp_all

lemma calc_corr_store:
  assumes "calc_corr_last12 df h = (r, h')"
  shows "take (length h) h' = h"
proof (cases "monthly (h ! df)")
  case False
  with assms show ?thesis by (simp add: calc_corr_last12_def)
next
  case True
  define h2 where "h2 = h @ [h ! df] @ [(h @ [h ! df]) ! length h]"
  define tr where "tr = iloc_last12 ((h @ [h ! df]) ! length h)"
  obtain r3 h3 where sp: "spread tr [1..12] (Suc (length h)) h2 = (r3, h3)"
    by (cases "spread tr [1..12] (Suc (length h)) h2")
  from spread_frame [OF sp]
  have len: "length h3 = length h2" and same: "\<And>b. b \<noteq> Suc (length h) \<Longrightarrow> h3 ! b = h2 ! b"
    by simp_all
  have pre: "take (length h) h3 = h"
  proof (rule take_prefix_eq)
    show "length h \<le> length h3" using len by (simp add: h2_def)
  next
    fix b assume "b < length h"
    then show "h3 ! b = h ! b" using same [of b] by (simp add: h2_def nth_append)
  qed
  have "h' = h3"
    using assms True sp
    by (auto simp: calc_corr_last12_def copy_df_def alloc_def Let_def h2_def tr_def
             split: sum.splits list.splits)
  with pre show ?thesis by simp
qed

subsection \<open>The loop over the candidates\<close>

lemma reject_fields [simp]:
  "amplitudes' (reject s x) = amplitudes' s"
  "posicao' (reject s x) = posicao' s"
  "max_gt_max (reject s x) = max_gt_max s"
  "max_lt_min (reject s x) = max_lt_min s"
  "anos_ignorados (reject s x) = anos_ignorados s"
  "anos_rejeitados' (reject s x) = map_option (\<lambda>l. l @ [x]) (anos_rejeitados' s)"
  by (simp_all add: reject_def)

lemma walk_outcome:
  assumes "walk base tc ps s = (r, s')"
      and "amplitudes' s = Some amp" and "anos_rejeitados' s = Some rj"
  shows "(r = Inl KeyError \<and> (\<exists>k\<in>set ps. loc base (fst (tc ! k) + 1) = None))
       \<or> (r = Inr () \<and> posicao' s' = posicao' s \<and> amplitudes' s' = Some amp
            \<and> (\<exists>rs. anos_rejeitados' s' = Some (rj @ rs) \<and> length rs = length ps)
            \<and> (\<forall>k\<in>set ps. rejects base amp (max_gt_max s) (max_lt_min s) (anos_ignorados s)
                                 (fst (tc ! k) + 1)))
       \<or> (r = Inr () \<and> (\<exists>k\<in>set ps. \<exists>rs.
              accepted base amp tc k (s\<lparr>anos_rejeitados' := Some (rj @ rs)\<rparr>) s'))"
  using assms
proof (induction ps arbitrary: s rj)
  case Nil
  then show ?case by auto
next
  case (Cons k ps)
  let ?p = "fst (tc ! k) + 1"
  show ?case
  proof (cases "loc base ?p")
    case None
    with Cons.prems show ?thesis by simp
  next
    case (Some cand)
    define ratio where "ratio = map2 flt_div cand (last (cells base))"
    have cr: "candidate_ratio base ?p = Some ratio"
      by (simp add: candidate_ratio_def Some ratio_def)
    consider (rej) "max_gt_max s < int (count_gt_max ratio amp) \<or> max_lt_min s < int (count_lt_min ratio amp)
                      \<or> year ?p \<in> set (anos_ignorados s)"
      | (acc) "int (count_gt_max ratio amp) \<le> max_gt_max s" "int (count_lt_min ratio amp) \<le> max_lt_min s"
              "year ?p \<notin> set (anos_ignorados s)"
      by linarith
    then show ?thesis
    proof cases
      case rej
      then obtain x where w: "walk base tc ps (reject s x) = (r, s')"
        using Cons.prems(1) Some Cons.prems(2)
        by (auto simp: Let_def ratio_def split: if_splits)
      have rk: "rejects base amp (max_gt_max s) (max_lt_min s) (anos_ignorados s) ?p"
        using rej by (auto simp: rejects_def cr)
      have a: "amplitudes' (reject s x) = Some amp" using Cons.prems(2) by simp
      have b: "anos_rejeitados' (reject s x) = Some (rj @ [x])" using Cons.prems(3) by simp
      have rs: "(reject s x)\<lparr>anos_rejeitados' := Some ((rj @ [x]) @ rs)\<rparr> = s\<lparr>anos_rejeitados' := Some (rj @ ([x] @ rs))\<rparr>" for rs
        by (simp add: reject_def)
      from Cons.IH [OF w a b] show ?thesis
      proof (elim disjE conjE bexE exE)
        assume "r = Inl KeyError" 
        fix j assume "j \<in> set ps" "loc base (fst (tc ! j) + 1) = None"
        then show ?thesis using \<open>r = Inl KeyError\<close> by auto
      next
        fix rs assume "r = Inr ()" "posicao' s' = posicao' (reject s x)" "amplitudes' s' = Some amp"
          "anos_rejeitados' s' = Some ((rj @ [x]) @ rs)" "length rs = length ps"
          "\<forall>k\<in>set ps. rejects base amp (max_gt_max (reject s x)) (max_lt_min (reject s x)) (anos_ignorados (reject s x)) (fst (tc ! k) + 1)"
        then have "r = Inr () \<and> posicao' s' = posicao' s \<and> amplitudes' s' = Some amp
            \<and> (\<exists>rs. anos_rejeitados' s' = Some (rj @ rs) \<and> length rs = length (k # ps))
            \<and> (\<forall>k\<in>set (k # ps). rejects base amp (max_gt_max s) (max_lt_min s) (anos_ignorados s)
                                 (fst (tc ! k) + 1))"
          using rk by (auto intro: exI [of _ "x # rs"])
        then show ?thesis by blast
      next
        fix j rs assume r: "r = Inr ()" and j: "j \<in> set ps"
          and "accepted base amp tc j ((reject s x)\<lparr>anos_rejeitados' := Some ((rj @ [x]) @ rs)\<rparr>) s'"
        then have "accepted base amp tc j (s\<lparr>anos_rejeitados' := Some (rj @ ([x] @ rs))\<rparr>) s'"
          by (simp only: rs)
        with j have "\<exists>k\<in>set (k # ps). \<exists>rs.
              accepted base amp tc k (s\<lparr>anos_rejeitados' := Some (rj @ rs)\<rparr>) s'"
          by (intro bexI [of _ j] exI [of _ "[x] @ rs"]) simp_all
        with r show ?thesis by blast
      qed
    next
      case acc
      have "r = Inr () \<and> accepted base amp tc k (s\<lparr>anos_rejeitados' := Some (rj @ [])\<rparr>) s'"
        using Cons.prems Some acc
        by (auto simp: Let_def accepted_def cr ratio_def)
      then have "\<exists>k'\<in>set (k # ps). \<exists>rs.
              accepted base amp tc k' (s\<lparr>anos_rejeitados' := Some (rj @ rs)\<rparr>) s'"
        by (intro bexI [of _ k] exI [of _ "[]"]) simp_all
      with \<open>r = Inr () \<and> _\<close> show ?thesis by blast
    qed
  qed
qed

subsection \<open>The steps of fit\<close>

lemma calc_corr_base:
  assumes "calc_corr_last12 df (h @ [x]) = (rc, h2)"
  shows "h2 ! length h = x" and "take (length h) h2 = h" and "length h < length h2"
proof -
  from calc_corr_store [OF assms] have t: "take (Suc (length h)) h2 = h @ [x]" by simp
  then have l: "Suc (length h) \<le> length h2"
    by (metis length_append_singleton length_take min.cobounded1 min.commute)
  then show "length h < length h2" by simp
  have "h2 ! length h = take (Suc (length h)) h2 ! length h" by simp
  then show "h2 ! length h = x" by (simp add: t)
  have "take (length h) h2 = take (length h) (take (Suc (length h)) h2)" by simp
  then show "take (length h) h2 = h" by (simp only: t) simp
qed

lemma walk_df_base:
  "walk b tc ps s = (r, s') \<Longrightarrow> df_base s' = df_base s \<and> df_correlacao s' = df_correlacao s"
proof (induction ps arbitrary: s)
  case Nil
  then show ?case by simp
next
  case (Cons k ps)
  have rj: "df_base (reject s x) = df_base s \<and> df_correlacao (reject s x) = df_correlacao s" for x
    by (simp add: reject_def)
  from Cons.prems show ?case
    by (auto simp: Let_def rj split: option.splits if_splits dest!: Cons.IH)
qed

lemma finish_df_base:
  "finish t tc s = (r, s') \<Longrightarrow> df_base s' = df_base s \<and> df_correlacao s' = df_correlacao s"
  by (auto simp: finish_def Let_def split: option.splits if_splits)

lemma fit_run:
  assumes "fit self df h = (r, s', h')"
  shows "(amplitudes' s' = amplitudes' self \<and> posicao' s' = posicao' self
            \<and> anos_rejeitados' s' = anos_rejeitados' self
            \<and> ((\<exists>e. fst (calc_corr_last12 df (h @ [h ! df])) = Inl e \<and> r = Inl e)
               \<or> (\<exists>t. fst (calc_corr_last12 df (h @ [h ! df])) = Inr t
                     \<and> getitem_col t (coluna self) = None \<and> r = Inl KeyError)
               \<or> (cells (h ! df) = [] \<and> r = Inl IndexError)))
       \<or> (\<exists>t col r4 s4.
             fst (calc_corr_last12 df (h @ [h ! df])) = Inr t
           \<and> getitem_col t (coluna self) = Some col
           \<and> cells (h ! df) \<noteq> []
           \<and> walk (h ! df) (sort_values_desc col) [1..<length col]
                (before_loop self (length h) t (h ! df)) = (r4, s4)
           \<and> (case r4 of Inl e \<Rightarrow> r = Inl e \<and> s' = s4
                | Inr _ \<Rightarrow> finish t (sort_values_desc col) s4 = (r, s')))"
    and "take (length h) h' = h" and "h' ! length h = h ! df" and "df_base s' = Some (length h)"
proof -
  obtain rc h2 where calc: "calc_corr_last12 df (h @ [h ! df]) = (rc, h2)"
    by (cases "calc_corr_last12 df (h @ [h ! df])")
  note base = calc_corr_base [OF calc]
  have h': "h' = h2"
    using assms calc
    by (auto simp: fit_def copy_df_def alloc_def Let_def
             split: sum.splits option.splits list.splits prod.splits)
  show "take (length h) h' = h" and "h' ! length h = h ! df"
    using base h' by simp_all
  show "df_base s' = Some (length h)"
    using assms calc
    by (auto simp: fit_def copy_df_def alloc_def Let_def
             split: sum.splits option.splits list.splits prod.splits
             dest!: walk_df_base finish_df_base)
  show "(amplitudes' s' = amplitudes' self \<and> posicao' s' = posicao' self
            \<and> anos_rejeitados' s' = anos_rejeitados' self
            \<and> ((\<exists>e. fst (calc_corr_last12 df (h @ [h ! df])) = Inl e \<and> r = Inl e)
               \<or> (\<exists>t. fst (calc_corr_last12 df (h @ [h ! df])) = Inr t
                     \<and> getitem_col t (coluna self) = None \<and> r = Inl KeyError)
               \<or> (cells (h ! df) = [] \<and> r = Inl IndexError)))
       \<or> (\<exists>t col r4 s4.
             fst (calc_corr_last12 df (h @ [h ! df])) = Inr t
           \<and> getitem_col t (coluna self) = Some col
           \<and> cells (h ! df) \<noteq> []
           \<and> walk (h ! df) (sort_values_desc col) [1..<length col]
                (before_loop self (length h) t (h ! df)) = (r4, s4)
           \<and> (case r4 of Inl e \<Rightarrow> r = Inl e \<and> s' = s4
                | Inr _ \<Rightarrow> finish t (sort_values_desc col) s4 = (r, s')))"
  proof (cases rc)
    case (Inl e)
    with assms calc show ?thesis
      by (auto simp: fit_def copy_df_def alloc_def Let_def)
  next
    case (Inr t)
    show ?thesis
    proof (cases "getitem_col t (coluna self)")
      case None
      with assms calc Inr show ?thesis
        by (auto simp: fit_def copy_df_def alloc_def Let_def)
    next
      case (Some col)
      show ?thesis
      proof (cases "cells (h ! df)")
        case Nil
        with assms calc Inr Some base show ?thesis
          by (auto simp: fit_def copy_df_def alloc_def Let_def)
      next
        case (Cons c cs)
        obtain r4 s4 where w: "walk (h ! df) (sort_values_desc col) [1..<length col]
                (before_loop self (length h) t (h ! df)) = (r4, s4)"
          by (cases "walk (h ! df) (sort_values_desc col) [1..<length col]
                (before_loop self (length h) t (h ! df))")
        have len: "length (sort_values_desc col) = length col"
          by (simp add: sort_values_desc_def)
        have "case r4 of Inl e \<Rightarrow> r = Inl e \<and> s' = s4
                | Inr _ \<Rightarrow> finish t (sort_values_desc col) s4 = (r, s')"
          using assms calc Inr Some Cons base w
          by (auto simp: fit_def copy_df_def alloc_def Let_def before_loop_def len
                   split: sum.splits prod.splits)
        with calc Inr Some Cons w show ?thesis by auto
      qed
    qed
  qed
qed

subsection \<open>The correlation table as a value\<close>

lemma spread_eq:
  "a < length h \<Longrightarrow>
     spread tr ms a h = (fst (spread_frame_of tr ms (h ! a)), h[a := snd (spread_frame_of tr ms (h ! a))])"
proof (induction ms arbitrary: h)
  case Nil
  then show ?case by simp
next
  case (Cons m ms)
  show ?case
  proof (cases "month_rows tr m")
    case Nil
    then show ?thesis by simp
  next
    case (Cons pr rest)
    obtain p row where pr: "pr = (p, row)" by (cases pr)
    have "a < length (h[a := setitem_month (h ! a) m row])" using Cons.prems by simp
    from Cons.IH [OF this] Cons pr Cons.prems show ?thesis by simp
  qed
qed

lemma rolling_corr_labels [simp]: "labels (rolling_corr df other) = labels df"
  by (simp add: rolling_corr_def)

lemma calc_corr_value:
  assumes "a < length h"
  shows "fst (calc_corr_last12 a h) = corr_table_of (h ! a)"
proof (cases "monthly (h ! a)")
  case False
  then show ?thesis by (simp add: calc_corr_last12_def corr_table_of_def)
next
  case True
  let ?h2 = "h @ [h ! a, h ! a]"
  have sp: "spread (iloc_last12 (h ! a)) [1..12] (Suc (length h)) ?h2 =
          (fst (spread_frame_of (iloc_last12 (h ! a)) [1..12] (h ! a)),
           ?h2[Suc (length h) := snd (spread_frame_of (iloc_last12 (h ! a)) [1..12] (h ! a))])"
    using spread_eq [of "Suc (length h)" ?h2 "iloc_last12 (h ! a)" "[1..12]"]
    by (simp add: nth_append)
  obtain r3 other where sf: "spread_frame_of (iloc_last12 (h ! a)) [1..12] (h ! a) = (r3, other)"
    by (cases "spread_frame_of (iloc_last12 (h ! a)) [1..12] (h ! a)")
  have h2: "h @ [h ! a] @ [(h @ [h ! a]) ! length h] = ?h2" by simp
  show ?thesis
    using True assms sp sf
    by (auto simp: calc_corr_last12_def corr_table_of_def copy_df_def alloc_def Let_def
                   nth_append list_update_append
             split: sum.splits list.splits)
qed

subsection \<open>The outcomes of fit on a fresh instance\<close>

lemma getitem_col_fst:
  assumes "getitem_col t c = Some col"
  shows "map fst col = map fst (entries t)"
  using assms by (auto simp: getitem_col_def split: prod.splits)

lemma set_sort_values_desc [simp]: "set (sort_values_desc col) = set col"
  by (simp add: sort_values_desc_def)

lemma length_sort_values_desc [simp]: "length (sort_values_desc col) = length col"
  by (simp add: sort_values_desc_def)

lemma finish_accepted:
  assumes "posicao' s = Some k" and "k < length col" and "getitem_col t c = Some col"
  shows "\<exists>r. finish t (sort_values_desc col) s =
           (Inr (), s\<lparr>correlacao' := Some (snd (sort_values_desc col ! k)),
                      correlacao_outros' := Some r\<rparr>)"
proof -
  have "sort_values_desc col ! k \<in> set col"
    using assms(2) by (metis length_sort_values_desc nth_mem set_sort_values_desc)
  then have "fst (sort_values_desc col ! k) \<in> set (map fst col)" by simp
  then have "fst (sort_values_desc col ! k) \<in> fst ` set (entries t)"
    by (simp add: getitem_col_fst [OF assms(3)])
  then obtain r where "map_of (entries t) (fst (sort_values_desc col ! k)) = Some r"
    by (metis domD dom_map_of_conv_image_fst)
  then have "finish t (sort_values_desc col) s =
           (Inr (), s\<lparr>correlacao' := Some (snd (sort_values_desc col ! k)),
                      correlacao_outros' := Some r\<rparr>)"
    using assms(1,2) by (simp add: finish_def Let_def)
  then show ?thesis by (rule exI)
qed

lemma fit_fresh:
  assumes "fit (init c ign lt gt) df h = (r, s', h')" and "df < length h"
  shows "(amplitudes' s' = None \<and> anos_rejeitados' s' = None
            \<and> ((\<exists>e. corr_table_of (h ! df) = Inl e \<and> r = Inl e)
               \<or> (\<exists>t. corr_table_of (h ! df) = Inr t \<and> getitem_col t c = None \<and> r = Inl KeyError)
               \<or> (cells (h ! df) = [] \<and> r = Inl IndexError)))
       \<or> (\<exists>t col. corr_table_of (h ! df) = Inr t \<and> getitem_col t c = Some col
             \<and> cells (h ! df) \<noteq> []
             \<and> ((r = Inl KeyError
                   \<and> (\<exists>k\<in>{1..<length col}. loc (h ! df) (fst (sort_values_desc col ! k) + 1) = None))
               \<or> (r = Inl TypeError
                   \<and> (\<exists>rs. anos_rejeitados' s' = Some rs \<and> length rs = length col - 1)
                   \<and> (\<forall>k\<in>{1..<length col}.
                         rejects (h ! df) (amplitudes_of (ratio_mes_of (h ! df))) gt lt ign
                           (fst (sort_values_desc col ! k) + 1)))
               \<or> (r = Inr ()
                   \<and> (\<exists>k\<in>{1..<length col}. \<exists>rs.
                         accepted (h ! df) (amplitudes_of (ratio_mes_of (h ! df)))
                           (sort_values_desc col) k
                           ((before_loop (init c ign lt gt) (length h) t (h ! df))
                              \<lparr>anos_rejeitados' := Some rs\<rparr>)
                           (s'\<lparr>correlacao' := None, correlacao_outros' := None\<rparr>)
                         \<and> correlacao' s' = Some (snd (sort_values_desc col ! k))))))"
proof -
  let ?self = "init c ign lt gt"
  let ?base = "h ! df"
  let ?amp = "amplitudes_of (ratio_mes_of ?base)"
  from fit_run(1) [OF assms(1)]
  show ?thesis
  proof (rule disjE)
    assume "amplitudes' s' = amplitudes' ?self \<and> posicao' s' = posicao' ?self
            \<and> anos_rejeitados' s' = anos_rejeitados' ?self
            \<and> ((\<exists>e. fst (calc_corr_last12 df (h @ [h ! df])) = Inl e \<and> r = Inl e)
               \<or> (\<exists>t. fst (calc_corr_last12 df (h @ [h ! df])) = Inr t
                     \<and> getitem_col t (coluna ?self) = None \<and> r = Inl KeyError)
               \<or> (cells (h ! df) = [] \<and> r = Inl IndexError))"
    then have a: "amplitudes' s' = amplitudes' ?self" "anos_rejeitados' s' = anos_rejeitados' ?self"
      and b: "(\<exists>e. fst (calc_corr_last12 df (h @ [h ! df])) = Inl e \<and> r = Inl e)
               \<or> (\<exists>t. fst (calc_corr_last12 df (h @ [h ! df])) = Inr t
                     \<and> getitem_col t (coluna ?self) = None \<and> r = Inl KeyError)
               \<or> (cells (h ! df) = [] \<and> r = Inl IndexError)"
      by simp_all
    have v: "fst (calc_corr_last12 df (h @ [h ! df])) = corr_table_of (h ! df)"
      using calc_corr_value [of df "h @ [h ! df]"] assms(2) by (simp add: nth_append)
    have "amplitudes' s' = None \<and> anos_rejeitados' s' = None
            \<and> ((\<exists>e. corr_table_of (h ! df) = Inl e \<and> r = Inl e)
               \<or> (\<exists>t. corr_table_of (h ! df) = Inr t \<and> getitem_col t c = None \<and> r = Inl KeyError)
               \<or> (cells (h ! df) = [] \<and> r = Inl IndexError))"
      using a b unfolding v by (simp add: init_def)
    then show ?thesis by (rule disjI1)
  next
    assume "\<exists>t col r4 s4.
             fst (calc_corr_last12 df (h @ [h ! df])) = Inr t
           \<and> getitem_col t (coluna ?self) = Some col
           \<and> cells (h ! df) \<noteq> []
           \<and> walk (h ! df) (sort_values_desc col) [1..<length col]
                (before_loop ?self (length h) t (h ! df)) = (r4, s4)
           \<and> (case r4 of Inl e \<Rightarrow> r = Inl e \<and> s' = s4
                | Inr _ \<Rightarrow> finish t (sort_values_desc col) s4 = (r, s'))"
    then show ?thesis
    proof (elim exE conjE)
    fix t col r4 s4
    let ?tc = "sort_values_desc col"
    let ?s3 = "before_loop ?self (length h) t ?base"
    assume calc: "fst (calc_corr_last12 df (h @ [h ! df])) = Inr t"
      and col: "getitem_col t (coluna ?self) = Some col"
      and ne: "cells ?base \<noteq> []"
      and w: "walk ?base ?tc [1..<length col] ?s3 = (r4, s4)"
      and fin: "case r4 of Inl e \<Rightarrow> r = Inl e \<and> s' = s4 | Inr _ \<Rightarrow> finish t ?tc s4 = (r, s')"
    have t: "corr_table_of ?base = Inr t"
      using calc calc_corr_value [of df "h @ [h ! df]"] assms(2) by (simp add: nth_append)
    have col': "getitem_col t c = Some col" using col by (simp add: init_def)
    have s3: "amplitudes' ?s3 = Some ?amp" "anos_rejeitados' ?s3 = Some []" "posicao' ?s3 = None"
      "max_gt_max ?s3 = gt" "max_lt_min ?s3 = lt" "anos_ignorados ?s3 = ign"
      by (simp_all add: before_loop_def init_def)
    from walk_outcome [OF w s3(1,2)]
    have "(r = Inl KeyError
                   \<and> (\<exists>k\<in>{1..<length col}. loc ?base (fst (?tc ! k) + 1) = None))
               \<or> (r = Inl TypeError
                   \<and> (\<exists>rs. anos_rejeitados' s' = Some rs \<and> length rs = length col - 1)
                   \<and> (\<forall>k\<in>{1..<length col}. rejects ?base ?amp gt lt ign (fst (?tc ! k) + 1)))
               \<or> (r = Inr ()
                   \<and> (\<exists>k\<in>{1..<length col}. \<exists>rs.
                         accepted ?base ?amp ?tc k (?s3\<lparr>anos_rejeitados' := Some rs\<rparr>)
                           (s'\<lparr>correlacao' := None, correlacao_outros' := None\<rparr>)
                         \<and> correlacao' s' = Some (snd (?tc ! k))))"
    proof (elim disjE conjE bexE exE)
      fix k assume "r4 = Inl KeyError" "k \<in> set [1..<length col]" "loc ?base (fst (?tc ! k) + 1) = None"
      then have "r = Inl KeyError" and "k \<in> {1..<length col}" using fin by simp_all
      with \<open>loc ?base (fst (?tc ! k) + 1) = None\<close> show ?thesis by blast
    next
      fix rs assume r4: "r4 = Inr ()" and p: "posicao' s4 = posicao' ?s3"
        and rj: "anos_rejeitados' s4 = Some ([] @ rs)" "length rs = length [1..<length col]"
        and all: "\<forall>k\<in>set [1..<length col]. rejects ?base ?amp (max_gt_max ?s3) (max_lt_min ?s3) (anos_ignorados ?s3) (fst (?tc ! k) + 1)"
      from r4 fin p s3(3) have "r = Inl TypeError" "s' = s4" by (simp_all add: finish_def)
      moreover have "\<exists>rs. anos_rejeitados' s' = Some rs \<and> length rs = length col - 1"
        using rj \<open>s' = s4\<close> by simp
      moreover have "\<forall>k\<in>{1..<length col}. rejects ?base ?amp gt lt ign (fst (?tc ! k) + 1)"
        using all by (simp add: s3)
      ultimately show ?thesis by blast
    next
      fix k rs assume r4: "r4 = Inr ()" and k: "k \<in> set [1..<length col]"
        and acc: "accepted ?base ?amp ?tc k (?s3\<lparr>anos_rejeitados' := Some ([] @ rs)\<rparr>) s4"
      from acc obtain ratio where s4: "s4 = ?s3\<lparr>anos_rejeitados' := Some ([] @ rs),
                    posicao' := Some k,
                    period_escolhido_ini' := Some (fst (?tc ! k) + 1),
                    ano_escolhido' := Some (year (fst (?tc ! k) + 1)),
                    amplitudes' := Some (?amp\<lparr>escolhido := Some ratio\<rparr>),
                    gt_max' := Some (count_gt_max ratio ?amp),
                    lt_min' := Some (count_lt_min ratio ?amp)\<rparr>"
        unfolding accepted_def Let_def by (cases "candidate_ratio ?base (fst (?tc ! k) + 1)") simp_all
      have pk: "posicao' s4 = Some k"
        and corr0: "correlacao' s4 = None" "correlacao_outros' s4 = None"
        by (simp_all add: s4 before_loop_def init_def)
      from k have kl: "k < length col" by simp
      from finish_accepted [OF pk kl col'] r4 fin
      obtain ro where "r = Inr ()"
        and s': "s' = s4\<lparr>correlacao' := Some (snd (?tc ! k)), correlacao_outros' := Some ro\<rparr>"
        by auto
      have "s'\<lparr>correlacao' := None, correlacao_outros' := None\<rparr> = s4"
        using corr0 by (simp add: s')
      then have "accepted ?base ?amp ?tc k (?s3\<lparr>anos_rejeitados' := Some rs\<rparr>)
                           (s'\<lparr>correlacao' := None, correlacao_outros' := None\<rparr>)"
        using acc by simp
      moreover have "correlacao' s' = Some (snd (?tc ! k))" by (simp add: s')
      moreover have "k \<in> {1..<length col}" using k by simp
      ultimately show ?thesis using \<open>r = Inr ()\<close> by blast
    qed
    with t col' ne show ?thesis
      apply (rule_tac disjI2)
      apply (rule_tac x = t in exI)
      apply (rule_tac x = col in exI)
      apply (intro conjI)
         apply assumption+
      done
    qed
  qed
qed

subsection \<open>The counts and the accepted candidate\<close>

lemma count_true_map2:
  assumes "length xs = n" and "length ys = n"
  shows "count_true (map2 f xs ys) = card {j. j < n \<and> f (xs ! j) (ys ! j)}"
proof -
  have "count_true (map2 f xs ys) = card {j. j < length (map2 f xs ys) \<and> id (map2 f xs ys ! j)}"
    unfolding count_true_def by (rule length_filter_conv_card)
  also have "{j. j < length (map2 f xs ys) \<and> id (map2 f xs ys ! j)} = {j. j < n \<and> f (xs ! j) (ys ! j)}"
    using assms by auto
  finally show ?thesis .
qed

lemma loc_row:
  assumes "loc df p = Some row"
  shows "row \<in> set (cells df)"
  using assms by (auto simp: loc_def split: if_splits)

lemma wf_row_length:
  "wf_frame df \<Longrightarrow> row \<in> set (cells df) \<Longrightarrow> length row = length (labels df)"
  by (simp add: wf_frame_def list_all_iff)

lemma length_amplitudes_of [simp]:
  "length (amp_min (amplitudes_of (ratio_mes_of df))) = length (labels df)"
  "length (amp_max (amplitudes_of (ratio_mes_of df))) = length (labels df)"
  by (simp_all add: amplitudes_of_def ratio_mes_of_def Let_def df_ratio_def)

lemma candidate_counts:
  assumes "candidate_ratio df p = Some ratio" and "wf_frame df" and "cells df \<noteq> []"
    and "length (amp_max amp) = length (labels df)" and "length (amp_min amp) = length (labels df)"
  shows "\<exists>cand. loc df p = Some cand
     \<and> count_gt_max ratio amp =
         card {j. j < length (labels df) \<and> flt_gt (flt_div (cand ! j) (last (cells df) ! j)) (amp_max amp ! j)}
     \<and> count_lt_min ratio amp =
         card {j. j < length (labels df) \<and> flt_lt (flt_div (cand ! j) (last (cells df) ! j)) (amp_min amp ! j)}"
proof -
  let ?n = "length (labels df)"
  from assms(1) obtain cand where c: "loc df p = Some cand"
    and r: "ratio = map2 flt_div cand (last (cells df))"
    by (auto simp: candidate_ratio_def)
  have lc: "length cand = ?n" using wf_row_length [OF assms(2) loc_row [OF c]] .
  have ll: "length (last (cells df)) = ?n" using wf_row_length [OF assms(2)] assms(3) by simp
  have lr: "length ratio = ?n" using lc ll by (simp add: r)
  have rj: "ratio ! j = flt_div (cand ! j) (last (cells df) ! j)" if "j < ?n" for j
    using that lc ll by (simp add: r)
  have "count_gt_max ratio amp = card {j. j < ?n \<and> flt_gt (ratio ! j) (amp_max amp ! j)}"
    unfolding count_gt_max_def by (rule count_true_map2 [OF lr assms(4)])
  also have "{j. j < ?n \<and> flt_gt (ratio ! j) (amp_max amp ! j)}
      = {j. j < ?n \<and> flt_gt (flt_div (cand ! j) (last (cells df) ! j)) (amp_max amp ! j)}"
    using rj by auto
  finally have g: "count_gt_max ratio amp =
         card {j. j < ?n \<and> flt_gt (flt_div (cand ! j) (last (cells df) ! j)) (amp_max amp ! j)}" .
  have "count_lt_min ratio amp = card {j. j < ?n \<and> flt_lt (ratio ! j) (amp_min amp ! j)}"
    unfolding count_lt_min_def by (rule count_true_map2 [OF lr assms(5)])
  also have "{j. j < ?n \<and> flt_lt (ratio ! j) (amp_min amp ! j)}
      = {j. j < ?n \<and> flt_lt (flt_div (cand ! j) (last (cells df) ! j)) (amp_min amp ! j)}"
    using rj by auto
  finally have l: "count_lt_min ratio amp =
         card {j. j < ?n \<and> flt_lt (flt_div (cand ! j) (last (cells df) ! j)) (amp_min amp ! j)}" .
  from c g l show ?thesis by blast
qed

lemma fit_accept:
  assumes "fit (init c ign lt gt) df h = (Inr (), s', h')" and "df < length h"
  shows "\<exists>t col k ratio. corr_table_of (h ! df) = Inr t \<and> getitem_col t c = Some col
     \<and> cells (h ! df) \<noteq> [] \<and> 1 \<le> k \<and> k < length col
     \<and> candidate_ratio (h ! df) (fst (sort_values_desc col ! k) + 1) = Some ratio
     \<and> df_correlacao s' = Some t
     \<and> posicao' s' = Some k
     \<and> period_escolhido_ini' s' = Some (fst (sort_values_desc col ! k) + 1)
     \<and> ano_escolhido' s' = Some (year (fst (sort_values_desc col ! k) + 1))
     \<and> amplitudes' s' = Some ((amplitudes_of (ratio_mes_of (h ! df)))\<lparr>escolhido := Some ratio\<rparr>)
     \<and> gt_max' s' = Some (count_gt_max ratio (amplitudes_of (ratio_mes_of (h ! df))))
     \<and> lt_min' s' = Some (count_lt_min ratio (amplitudes_of (ratio_mes_of (h ! df))))
     \<and> correlacao' s' = Some (snd (sort_values_desc col ! k))
     \<and> int (count_gt_max ratio (amplitudes_of (ratio_mes_of (h ! df)))) \<le> gt
     \<and> int (count_lt_min ratio (amplitudes_of (ratio_mes_of (h ! df)))) \<le> lt
     \<and> year (fst (sort_values_desc col ! k) + 1) \<notin> set ign"
proof -
  let ?amp = "amplitudes_of (ratio_mes_of (h ! df))"
  from fit_fresh [OF assms]
  obtain t col k rs where t: "corr_table_of (h ! df) = Inr t" and col: "getitem_col t c = Some col"
    and ne: "cells (h ! df) \<noteq> []" and k: "k \<in> {1..<length col}"
    and acc: "accepted (h ! df) ?amp (sort_values_desc col) k
                ((before_loop (init c ign lt gt) (length h) t (h ! df))\<lparr>anos_rejeitados' := Some rs\<rparr>)
                (s'\<lparr>correlacao' := None, correlacao_outros' := None\<rparr>)"
    and co: "correlacao' s' = Some (snd (sort_values_desc col ! k))"
    by auto
  let ?p = "fst (sort_values_desc col ! k) + 1"
  let ?s3 = "(before_loop (init c ign lt gt) (length h) t (h ! df))\<lparr>anos_rejeitados' := Some rs\<rparr>"
  from acc obtain ratio where cr: "candidate_ratio (h ! df) ?p = Some ratio"
    and eq: "s'\<lparr>correlacao' := None, correlacao_outros' := None\<rparr> = ?s3\<lparr>posicao' := Some k,
                    period_escolhido_ini' := Some ?p,
                    ano_escolhido' := Some (year ?p),
                    amplitudes' := Some (?amp\<lparr>escolhido := Some ratio\<rparr>),
                    gt_max' := Some (count_gt_max ratio ?amp),
                    lt_min' := Some (count_lt_min ratio ?amp)\<rparr>"
    and lim: "int (count_gt_max ratio ?amp) \<le> max_gt_max ?s3" "int (count_lt_min ratio ?amp) \<le> max_lt_min ?s3"
       "year ?p \<notin> set (anos_ignorados ?s3)"
    unfolding accepted_def Let_def by (cases "candidate_ratio (h ! df) ?p") simp_all
  have f1: "df_correlacao s' = df_correlacao (s'\<lparr>correlacao' := None, correlacao_outros' := None\<rparr>)"
    and f2: "posicao' s' = posicao' (s'\<lparr>correlacao' := None, correlacao_outros' := None\<rparr>)"
    and f3: "period_escolhido_ini' s' = period_escolhido_ini' (s'\<lparr>correlacao' := None, correlacao_outros' := None\<rparr>)"
    and f4: "ano_escolhido' s' = ano_escolhido' (s'\<lparr>correlacao' := None, correlacao_outros' := None\<rparr>)"
    and f5: "amplitudes' s' = amplitudes' (s'\<lparr>correlacao' := None, correlacao_outros' := None\<rparr>)"
    and f6: "gt_max' s' = gt_max' (s'\<lparr>correlacao' := None, correlacao_outros' := None\<rparr>)"
    and f7: "lt_min' s' = lt_min' (s'\<lparr>correlacao' := None, correlacao_outros' := None\<rparr>)"
    by simp_all
  have g1: "df_correlacao s' = Some t" unfolding f1 eq by (simp add: before_loop_def)
  have g2: "posicao' s' = Some k" unfolding f2 eq by simp
  have g3: "period_escolhido_ini' s' = Some ?p" unfolding f3 eq by simp
  have g4: "ano_escolhido' s' = Some (year ?p)" unfolding f4 eq by simp
  have g5: "amplitudes' s' = Some (?amp\<lparr>escolhido := Some ratio\<rparr>)" unfolding f5 eq by simp
  have g6: "gt_max' s' = Some (count_gt_max ratio ?amp)" unfolding f6 eq by simp
  have g7: "lt_min' s' = Some (count_lt_min ratio ?amp)" unfolding f7 eq by simp
  have l1: "int (count_gt_max ratio ?amp) \<le> gt" and l2: "int (count_lt_min ratio ?amp) \<le> lt"
    and l3: "year ?p \<notin> set ign"
    using lim by (simp_all add: before_loop_def init_def)
  from k have k1: "1 \<le> k" and k2: "k < length col" by simp_all
  show ?thesis
    apply (rule_tac x = t in exI)
    apply (rule_tac x = col in exI)
    apply (rule_tac x = k in exI)
    apply (rule_tac x = ratio in exI)
    using t col ne k1 k2 cr g1 g2 g3 g4 g5 g6 g7 co l1 l2 l3 apply (intro conjI)
                    apply assumption+
    done
qed

subsection \<open>The correlation table of the series of two years\<close>

lemma month_rows_rolling_corr:
  "month_rows (rolling_corr df other) m =
     map (\<lambda>i. (first df + int i, rolling_row df other i))
         (filter (\<lambda>i. month (first df + int i) = m) [0..<length (cells df)])"
proof -
  let ?n = "length (cells df)"
  have c: "cells (rolling_corr df other) = map (rolling_row df other) [0..<?n]"
    by (simp add: rolling_corr_def rolling_row_def)
  have i: "index (rolling_corr df other) = map (\<lambda>i. first df + int i) [0..<?n]"
    by (simp add: index_def rolling_corr_def)
  have z: "zip (map (\<lambda>i. first df + int i) [0..<?n]) (map (rolling_row df other) [0..<?n])
        = map (\<lambda>i. (first df + int i, rolling_row df other i)) [0..<?n]"
    by (simp add: zip_map_map zip_same_conv_map)
  show ?thesis
    unfolding month_rows_def c i z filter_map by (simp add: comp_def)
qed

lemma corr_table_of_ok:
  assumes "monthly df" and "spread_frame_of (iloc_last12 df) [1..12] df = (Inr (), other)"
    and "index (iloc_last12 df) \<noteq> []"
  shows "corr_table_of df = Inr \<lparr>index_name = Some ''mes_final'', t_labels = labels df,
           entries = month_rows (rolling_corr df other) (month (last (index (iloc_last12 df))))\<rparr>"
  using assms by (cases "index (iloc_last12 df)") (simp_all add: corr_table_of_def)

lemma ex_spread: "spread_frame_of (iloc_last12 ex_df) [1..12] ex_df = (Inr (), ex_other)"
  by code_simp

lemma ex_last_month: "index (iloc_last12 ex_df) \<noteq> [] \<and> month (last (index (iloc_last12 ex_df))) = 12"
  by code_simp

lemma ex_rows: "filter (\<lambda>i. month (first ex_df + int i) = 12) [0..<length (cells ex_df)] = [11, 23]"
  by code_simp

lemma ex_windows:
  "window12 11 (column 0 (cells ex_df)) = [Fin 1, Fin 1, Fin 2, Fin 2, Fin 1, Fin 1, Fin 2, Fin 2, Fin 1, Fin 1, Fin 2, Fin 2]"
  "window12 11 (column 0 (cells ex_other)) = [Fin 2, Fin 1, Fin 1, Fin 2, Fin 2, Fin 1, Fin 1, Fin 2, Fin 2, Fin 1, Fin 1, Fin 2]"
  "window12 23 (column 0 (cells ex_df)) = [Fin 2, Fin 1, Fin 1, Fin 2, Fin 2, Fin 1, Fin 1, Fin 2, Fin 2, Fin 1, Fin 1, Fin 2]"
  "window12 23 (column 0 (cells ex_other)) = [Fin 2, Fin 1, Fin 1, Fin 2, Fin 2, Fin 1, Fin 1, Fin 2, Fin 2, Fin 1, Fin 1, Fin 2]"
  "window12 11 (column (Suc 0) (cells ex_df)) = [Fin 0, Fin 0, Fin 0, Fin 0, Fin 0, Fin 0, Fin 0, Fin 0, Fin 0, Fin 0, Fin 0, Fin 0]"
  "window12 11 (column (Suc 0) (cells ex_other)) = [Fin 0, Fin 0, Fin 0, Fin 0, Fin 0, Fin 0, Fin 0, Fin 0, Fin 0, Fin 0, Fin 0, Fin 0]"
  "window12 23 (column (Suc 0) (cells ex_df)) = [Fin 0, Fin 0, Fin 0, Fin 0, Fin 0, Fin 0, Fin 0, Fin 0, Fin 0, Fin 0, Fin 0, Fin 0]"
  "window12 23 (column (Suc 0) (cells ex_other)) = [Fin 0, Fin 0, Fin 0, Fin 0, Fin 0, Fin 0, Fin 0, Fin 0, Fin 0, Fin 0, Fin 0, Fin 0]"
  by code_simp+

lemma ex_corrs:
  "corr ([Fin 1, Fin 1, Fin 2, Fin 2, Fin 1, Fin 1, Fin 2, Fin 2, Fin 1, Fin 1, Fin 2, Fin 2]) ([Fin 2, Fin 1, Fin 1, Fin 2, Fin 2, Fin 1, Fin 1, Fin 2, Fin 2, Fin 1, Fin 1, Fin 2]) = Fin 0"
  "corr ([Fin 0, Fin 0, Fin 0, Fin 0, Fin 0, Fin 0, Fin 0, Fin 0, Fin 0, Fin 0, Fin 0, Fin 0]) ([Fin 0, Fin 0, Fin 0, Fin 0, Fin 0, Fin 0, Fin 0, Fin 0, Fin 0, Fin 0, Fin 0, Fin 0]) = NaN"
  by (simp_all add: corr_def roll_mean_def roll_var_def)

lemma ex_corr_self:
  "corr ([Fin 2, Fin 1, Fin 1, Fin 2, Fin 2, Fin 1, Fin 1, Fin 2, Fin 2, Fin 1, Fin 1, Fin 2]) ([Fin 2, Fin 1, Fin 1, Fin 2, Fin 2, Fin 1, Fin 1, Fin 2, Fin 2, Fin 1, Fin 1, Fin 2]) = Fin 1"
proof -
  have "sqrt (3 * 3 / (11 * 11)) = 3 / 11"
    by (rule real_sqrt_unique) (simp_all add: power2_eq_square)
  then show ?thesis
    by (simp add: corr_def roll_mean_def roll_var_def power2_eq_square)
qed

lemma ex_labels: "[0..<length (labels ex_df)] = [0, 1]"
  by code_simp

lemma ex_table:
  "corr_table_of ex_df = Inr \<lparr>index_name = Some ''mes_final'', t_labels = [6, 74],
      entries = [(24011, [Fin 0, NaN]), (24023, [Fin 1, NaN])]\<rparr>"
proof -
  have m: "monthly ex_df" and l: "labels ex_df = [6, 74]" and f: "first ex_df = 24000"
    by (simp_all add: ex_df_def)
  have r: "rolling_row ex_df ex_other 11 = [Fin 0, NaN]" "rolling_row ex_df ex_other 23 = [Fin 1, NaN]"
    unfolding rolling_row_def ex_labels by (simp_all add: ex_windows ex_corrs ex_corr_self)
  have "month_rows (rolling_corr ex_df ex_other) 12 = [(24011, [Fin 0, NaN]), (24023, [Fin 1, NaN])]"
    unfolding month_rows_rolling_corr ex_rows by (simp add: r f)
  then show ?thesis
    using ex_last_month corr_table_of_ok [OF m ex_spread] by (simp add: l)
qed

subsection \<open>Acceptance within the limits\<close>

lemma ex_col6: "getitem_col ex_table_val 6 = Some [(24011, Fin 0), (24023, Fin 1)]"
  by code_simp

lemma ex_col74: "getitem_col ex_table_val 74 = Some [(24011, NaN), (24023, NaN)]"
  by code_simp

lemma ex_top6: "sort_values_desc [(24011, Fin 0), (24023, Fin 1)] = [(24023, Fin 1), (24011, Fin 0)]"
  by code_simp

lemma ex_top74: "sort_values_desc [(24011, NaN), (24023, NaN)] = [(24011, NaN), (24023, NaN)]"
  by code_simp

lemma ex_amp:
  "amplitudes_of (ratio_mes_of ex_df) = \<lparr>amp_min = [Fin 1, NaN], amp_max = [Fin 1, NaN], escolhido = None\<rparr>"
  by code_simp

lemma ex_ratio: "candidate_ratio ex_df 24012 = Some [Fin 1, NaN]"
  by code_simp

lemma ex_not_rejected: "\<not> rejects ex_df (amplitudes_of (ratio_mes_of ex_df)) 0 0 [] 24012"
  by code_simp

lemma ex_rejected: "rejects ex_df (amplitudes_of (ratio_mes_of ex_df)) 0 0 [2001] 24012"
  by code_simp

lemma ex_nonempty: "cells ex_df \<noteq> []"
  by code_simp

lemma ex_loc: "loc ex_df 24012 \<noteq> None"
  by code_simp

lemma ex_wf: "wf_frame ex_df"
  by code_simp

text \<open>
  Claim C1.  When \<open>fit\<close> on a fresh instance accepts a candidate, the recorded counts
  satisfy \<open>gt_max_ \<le> max_gt_max\<close> and \<open>lt_min_ \<le> max_lt_min\<close> together, where
  \<open>gt_max_\<close> is the number of stations whose candidate ratio (the value at the month
  after the window-end month of the candidate at rank \<open>posicao_\<close>, which is
  \<open>period_escolhido_ini_\<close>, over the value at the last month of the series) is greater
  than the station's maximum in \<open>amplitudes_\<close>, and \<open>lt_min_\<close> the number of stations whose
  ratio is less than the station's minimum.
\<close>

theorem accepted_within_limits:
  assumes "fit (init c ign lt gt) df h = (Inr (), s', h')" and "df < length h"
    and "wf_frame (h ! df)"
  shows "\<exists>g l p cand amp.
           gt_max' s' = Some g \<and> lt_min' s' = Some l \<and> int g \<le> gt \<and> int l \<le> lt
         \<and> period_escolhido_ini' s' = Some p \<and> loc (h ! df) p = Some cand
         \<and> amplitudes' s' = Some amp
         \<and> g = card {j. j < length (labels (h ! df))
                       \<and> flt_gt (flt_div (cand ! j) (last (cells (h ! df)) ! j)) (amp_max amp ! j)}
         \<and> l = card {j. j < length (labels (h ! df))
                       \<and> flt_lt (flt_div (cand ! j) (last (cells (h ! df)) ! j)) (amp_min amp ! j)}
         \<and> (\<exists>t col k. df_correlacao s' = Some t \<and> getitem_col t c = Some col
                \<and> posicao' s' = Some k \<and> 1 \<le> k \<and> k < length col
                \<and> p = fst (sort_values_desc col ! k) + 1)"
proof -
  let ?amp = "amplitudes_of (ratio_mes_of (h ! df))"
  from fit_accept [OF assms(1,2)]
  obtain t col k ratio where ne: "cells (h ! df) \<noteq> []"
    and rk: "df_correlacao s' = Some t" "getitem_col t c = Some col" "posicao' s' = Some k"
      "1 \<le> k" "k < length col"
    and cr: "candidate_ratio (h ! df) (fst (sort_values_desc col ! k) + 1) = Some ratio"
    and p: "period_escolhido_ini' s' = Some (fst (sort_values_desc col ! k) + 1)"
    and a: "amplitudes' s' = Some (?amp\<lparr>escolhido := Some ratio\<rparr>)"
    and g: "gt_max' s' = Some (count_gt_max ratio ?amp)"
    and l: "lt_min' s' = Some (count_lt_min ratio ?amp)"
    and lim: "int (count_gt_max ratio ?amp) \<le> gt" "int (count_lt_min ratio ?amp) \<le> lt"
    by blast
  let ?amp' = "?amp\<lparr>escolhido := Some ratio\<rparr>"
  have c: "count_gt_max ratio ?amp' = count_gt_max ratio ?amp" "count_lt_min ratio ?amp' = count_lt_min ratio ?amp"
    by (simp_all add: count_gt_max_def count_lt_min_def)
  from candidate_counts [OF cr assms(3) ne, of ?amp']
  obtain cand where cand: "loc (h ! df) (fst (sort_values_desc col ! k) + 1) = Some cand"
    and cg: "count_gt_max ratio ?amp = card {j. j < length (labels (h ! df))
                       \<and> flt_gt (flt_div (cand ! j) (last (cells (h ! df)) ! j)) (amp_max ?amp' ! j)}"
    and cl: "count_lt_min ratio ?amp = card {j. j < length (labels (h ! df))
                       \<and> flt_lt (flt_div (cand ! j) (last (cells (h ! df)) ! j)) (amp_min ?amp' ! j)}"
    unfolding c by auto
  have link: "\<exists>t col' k'. df_correlacao s' = Some t \<and> getitem_col t c = Some col'
                \<and> posicao' s' = Some k' \<and> 1 \<le> k' \<and> k' < length col'
                \<and> fst (sort_values_desc col ! k) + 1 = fst (sort_values_desc col' ! k') + 1"
    by (intro exI [of _ t] exI [of _ col] exI [of _ k] conjI rk refl)
  show ?thesis
    apply (rule exI [of _ "count_gt_max ratio ?amp"])
    apply (rule exI [of _ "count_lt_min ratio ?amp"])
    apply (rule exI [of _ "fst (sort_values_desc col ! k) + 1"])
    apply (rule exI [of _ cand])
    apply (rule exI [of _ ?amp'])
    using g l lim p cand a cg cl link apply (intro conjI)
             apply assumption+
    done
qed

lemma ex_fit_accepts: "fst (fit (init 6 [] 0 0) 0 [ex_df]) = Inr ()"
proof -
  obtain r s' h' where f: "fit (init 6 [] 0 0) 0 [ex_df] = (r, s', h')"
    by (cases "fit (init 6 [] 0 0) 0 [ex_df]")
  have t: "corr_table_of ex_df = Inr ex_table_val" by (simp add: ex_table ex_table_val_def)
  have s: "{1..<Suc (Suc 0)} = {Suc 0}" by auto
  from fit_fresh [OF f] have "r = Inr ()"
    using ex_not_rejected ex_nonempty ex_loc
    by (auto simp: t ex_col6 ex_top6 s)
  with f show ?thesis by simp
qed

theorem accepted_within_limits_witness:
  "fit (init 6 [] 0 0) 0 [ex_df] = (Inr (), snd (fit (init 6 [] 0 0) 0 [ex_df]))
   \<and> 0 < length [ex_df] \<and> wf_frame ([ex_df] ! 0)
   \<and> gt_max' (fst (snd (fit (init 6 [] 0 0) 0 [ex_df]))) = Some 0
   \<and> lt_min' (fst (snd (fit (init 6 [] 0 0) 0 [ex_df]))) = Some 0"
proof -
  have f: "fit (init 6 [] 0 0) 0 [ex_df]
      = (Inr (), fst (snd (fit (init 6 [] 0 0) 0 [ex_df])), snd (snd (fit (init 6 [] 0 0) 0 [ex_df])))"
    using ex_fit_accepts by (metis prod.collapse)
  have w: "wf_frame ([ex_df] ! 0)" using ex_wf by simp
  from accepted_within_limits [OF f _ w] f w show ?thesis by auto
qed

subsection \<open>Excluded years and exhaustion\<close>

text \<open>
  Claim C2.  When \<open>fit\<close> on a fresh instance accepts a candidate, \<open>ano_escolhido_\<close> is
  the year of the month after the window-end month of the candidate at rank \<open>posicao_\<close>
  of the ranked list, and it is not in \<open>anos_ignorados\<close>.
\<close>

theorem accepted_year_not_ignored:
  assumes "fit (init c ign lt gt) df h = (Inr (), s', h')" and "df < length h"
  shows "\<exists>y t col k. ano_escolhido' s' = Some y \<and> y \<notin> set ign
           \<and> df_correlacao s' = Some t \<and> getitem_col t c = Some col
           \<and> posicao' s' = Some k \<and> 1 \<le> k \<and> k < length col
           \<and> y = year (fst (sort_values_desc col ! k) + 1)
           \<and> period_escolhido_ini' s' = Some (fst (sort_values_desc col ! k) + 1)
           \<and> fst (sort_values_desc col ! k) \<in> fst ` set (entries t)"
proof -
  from fit_accept [OF assms]
  obtain t col k where col: "getitem_col t c = Some col" and k: "1 \<le> k" "k < length col"
    and t: "df_correlacao s' = Some t" and pk: "posicao' s' = Some k"
    and p: "period_escolhido_ini' s' = Some (fst (sort_values_desc col ! k) + 1)"
    and y: "ano_escolhido' s' = Some (year (fst (sort_values_desc col ! k) + 1))"
    and n: "year (fst (sort_values_desc col ! k) + 1) \<notin> set ign"
    by blast
  have "sort_values_desc col ! k \<in> set col"
    using k(2) by (metis length_sort_values_desc nth_mem set_sort_values_desc)
  then have "fst (sort_values_desc col ! k) \<in> set (map fst col)" by simp
  then have "fst (sort_values_desc col ! k) \<in> fst ` set (entries t)"
    by (simp add: getitem_col_fst [OF col])
  with t col pk k p y n show ?thesis by blast
qed

lemma corr_table_nonempty:
  assumes "corr_table_of df = Inr t"
  shows "cells df \<noteq> []"
proof
  assume "cells df = []"
  then have "index (iloc_last12 df) = []" by (simp add: index_def iloc_last12_def)
  with assms show False
    by (auto simp: corr_table_of_def split: if_splits prod.splits sum.splits)
qed

lemma rejects_candidate:
  "rejects base amp gt lt ign p \<Longrightarrow> loc base p \<noteq> None"
  by (auto simp: rejects_def candidate_ratio_def split: option.splits)

lemma accepted_not_rejects:
  assumes "accepted base amp tc k s s'"
  shows "\<not> rejects base amp (max_gt_max s) (max_lt_min s) (anos_ignorados s) (fst (tc ! k) + 1)"
  using assms unfolding accepted_def rejects_def Let_def
  by (cases "candidate_ratio base (fst (tc ! k) + 1)") auto

lemma fit_fresh_cases [consumes 2, case_names calc_error no_column empty key_error exhausted accepted]:
  assumes "fit (init c ign lt gt) df h = (r, s', h')" and "df < length h"
  obtains e where "corr_table_of (h ! df) = Inl e" "r = Inl e"
  | t where "corr_table_of (h ! df) = Inr t" "getitem_col t c = None" "r = Inl KeyError"
  | "cells (h ! df) = []" "r = Inl IndexError"
  | t col k where "corr_table_of (h ! df) = Inr t" "getitem_col t c = Some col"
      "k \<in> {1..<length col}" "loc (h ! df) (fst (sort_values_desc col ! k) + 1) = None"
      "r = Inl KeyError"
  | t col rs where "corr_table_of (h ! df) = Inr t" "getitem_col t c = Some col"
      "r = Inl TypeError" "anos_rejeitados' s' = Some rs" "length rs = length col - 1"
      "\<forall>k\<in>{1..<length col}. rejects (h ! df) (amplitudes_of (ratio_mes_of (h ! df))) gt lt ign
                           (fst (sort_values_desc col ! k) + 1)"
  | t col k where "corr_table_of (h ! df) = Inr t" "getitem_col t c = Some col"
      "k \<in> {1..<length col}" "r = Inr ()"
      "\<not> rejects (h ! df) (amplitudes_of (ratio_mes_of (h ! df))) gt lt ign
                           (fst (sort_values_desc col ! k) + 1)"
      "loc (h ! df) (fst (sort_values_desc col ! k) + 1) \<noteq> None"
proof -
  have lim: "max_gt_max ((before_loop (init c ign lt gt) a t b)\<lparr>anos_rejeitados' := x\<rparr>) = gt"
    "max_lt_min ((before_loop (init c ign lt gt) a t b)\<lparr>anos_rejeitados' := x\<rparr>) = lt"
    "anos_ignorados ((before_loop (init c ign lt gt) a t b)\<lparr>anos_rejeitados' := x\<rparr>) = ign"
    for a t b x
    by (simp_all add: before_loop_def init_def)
  have acc: "loc b (fst (tc ! k) + 1) \<noteq> None" if "accepted b amp tc k s1 s2" for b amp tc k s1 s2
    using that unfolding accepted_def Let_def candidate_ratio_def
    by (cases "loc b (fst (tc ! k) + 1)") simp_all
  from fit_fresh [OF assms] show thesis
    apply (elim disjE conjE exE bexE)
         apply (erule (1) that(1))
        apply (erule (2) that(2))
       apply (erule (1) that(3))
      apply (erule (4) that(4))
     apply (erule (5) that(5))
    apply (frule accepted_not_rejects)
    apply (drule acc)
    apply (simp only: lim)
    apply (erule (5) that(6))
    done
qed

lemma ex_counts:
  "count_gt_max [Fin 1, NaN] (amplitudes_of (ratio_mes_of ex_df)) = 0"
  "count_lt_min [Fin 1, NaN] (amplitudes_of (ratio_mes_of ex_df)) = 0"
  "year 24012 = 2001"
  by code_simp+

lemma ex_rejects_iff:
  "rejects ex_df (amplitudes_of (ratio_mes_of ex_df)) 0 0 ign 24012 \<longleftrightarrow> 2001 \<in> set ign"
  by (simp add: rejects_def ex_ratio ex_counts)

lemma ex_fit_result:
  "fst (fit (init 6 ign 0 0) 0 [ex_df]) = (if 2001 \<in> set ign then Inl TypeError else Inr ())"
proof -
  obtain r s' h' where f: "fit (init 6 ign 0 0) 0 [ex_df] = (r, s', h')"
    by (cases "fit (init 6 ign 0 0) 0 [ex_df]")
  have t: "corr_table_of ([ex_df] ! 0) = Inr ex_table_val" by (simp add: ex_table ex_table_val_def)
  have s: "{1..<Suc (Suc 0)} = {Suc 0}" by auto
  have z: "(0::nat) < length [ex_df]" by simp
  from f z have "r = (if 2001 \<in> set ign then Inl TypeError else Inr ())"
  proof (cases rule: fit_fresh_cases)
    case (calc_error e)
    with t show ?thesis by simp
  next
    case (no_column t')
    with t show ?thesis by (simp add: ex_col6)
  next
    case empty
    with ex_nonempty show ?thesis by simp
  next
    case (key_error t' col k)
    with t ex_loc show ?thesis by (auto simp: ex_col6 ex_top6 s)
  next
    case (exhausted t' col rs)
    with t show ?thesis by (auto simp: ex_col6 ex_top6 s ex_rejects_iff)
  next
    case (accepted t' col k)
    with t show ?thesis by (auto simp: ex_col6 ex_top6 s ex_rejects_iff)
  qed
  with f show ?thesis by simp
qed

theorem accepted_year_not_ignored_witness:
  "fit (init 6 [1999, 2000] 0 0) 0 [ex_df] = (Inr (), snd (fit (init 6 [1999, 2000] 0 0) 0 [ex_df]))
   \<and> 0 < length [ex_df]
   \<and> (\<exists>y. ano_escolhido' (fst (snd (fit (init 6 [1999, 2000] 0 0) 0 [ex_df]))) = Some y
           \<and> y \<notin> set [1999, 2000])"
proof -
  have "fst (fit (init 6 [1999, 2000] 0 0) 0 [ex_df]) = Inr ()"
    by (simp add: ex_fit_result)
  then have f: "fit (init 6 [1999, 2000] 0 0) 0 [ex_df]
      = (Inr (), fst (snd (fit (init 6 [1999, 2000] 0 0) 0 [ex_df])),
                 snd (snd (fit (init 6 [1999, 2000] 0 0) 0 [ex_df])))"
    by (metis prod.collapse)
  from accepted_year_not_ignored [OF f] f show ?thesis by auto
qed

text \<open>
  Claim C3, as the source has it.  If every candidate of the ranked list from position 1
  on is rejected by the amplitude checks or by the excluded years, \<open>fit\<close> fails, with the
  \<open>TypeError\<close> of the lookup \<open>top_corr.iloc[None]\<close> (the source has no error of its own for
  this), and \<open>anos_rejeitados_\<close> holds one entry for each of these candidates.
\<close>

theorem exhausted_fails:
  assumes "df < length h" and "fst (calc_corr_last12 df h) = Inr t"
    and "getitem_col t c = Some col"
    and "\<forall>k\<in>{1..<length col}.
           rejects (h ! df) (amplitudes_of (ratio_mes_of (h ! df))) gt lt ign
             (fst (sort_values_desc col ! k) + 1)"
  shows "fst (fit (init c ign lt gt) df h) = Inl TypeError
       \<and> map_option length (anos_rejeitados' (fst (snd (fit (init c ign lt gt) df h))))
           = Some (length col - 1)"
proof -
  let ?amp = "amplitudes_of (ratio_mes_of (h ! df))"
  obtain r s' h' where f: "fit (init c ign lt gt) df h = (r, s', h')"
    by (cases "fit (init c ign lt gt) df h")
  have t: "corr_table_of (h ! df) = Inr t"
    using calc_corr_value [OF assms(1)] assms(2) by simp
  have ne: "cells (h ! df) \<noteq> []" by (rule corr_table_nonempty [OF t])
  from f assms(1)
  have "r = Inl TypeError \<and> (\<exists>rs. anos_rejeitados' s' = Some rs \<and> length rs = length col - 1)"
  proof (cases rule: fit_fresh_cases)
    case (calc_error e)
    with t show ?thesis by simp
  next
    case (no_column t')
    with t assms(3) show ?thesis by simp
  next
    case empty
    with ne show ?thesis by simp
  next
    case (key_error t' col' k)
    with t assms(3) have "col' = col" by simp
    with key_error(3,4) assms(4) rejects_candidate show ?thesis by blast
  next
    case (exhausted t' col' rs)
    with t assms(3) have "col' = col" by simp
    with exhausted show ?thesis by simp
  next
    case (accepted t' col' k)
    with t assms(3) have "col' = col" by simp
    with accepted(3,5) assms(4) show ?thesis by blast
  qed
  with f show ?thesis by auto
qed

theorem exhausted_fails_witness:
  "0 < length [ex_df] \<and> fst (calc_corr_last12 0 [ex_df]) = Inr ex_table_val
   \<and> getitem_col ex_table_val 6 = Some [(24011, Fin 0), (24023, Fin 1)]
   \<and> rejects ([ex_df] ! 0) (amplitudes_of (ratio_mes_of ([ex_df] ! 0))) 0 0 [2001]
         (fst (sort_values_desc [(24011, Fin 0), (24023, Fin 1)] ! 1) + 1)
   \<and> fst (fit (init 6 [2001] 0 0) 0 [ex_df]) = Inl TypeError
   \<and> map_option length (anos_rejeitados' (fst (snd (fit (init 6 [2001] 0 0) 0 [ex_df])))) = Some 1"
proof -
  have a: "(0::nat) < length [ex_df]" by simp
  have b: "fst (calc_corr_last12 0 [ex_df]) = Inr ex_table_val"
    using calc_corr_value [OF a] by (simp add: ex_table ex_table_val_def)
  have s: "{1..<Suc (Suc 0)} = {Suc 0}" by auto
  have d: "\<forall>k\<in>{1..<length [(24011, Fin 0), (24023, Fin 1 :: flt)]}.
         rejects ([ex_df] ! 0) (amplitudes_of (ratio_mes_of ([ex_df] ! 0))) 0 0 [2001]
           (fst (sort_values_desc [(24011, Fin 0), (24023, Fin 1)] ! k) + 1)"
    by (simp add: s ex_top6 ex_rejects_iff)
  have e: "rejects ([ex_df] ! 0) (amplitudes_of (ratio_mes_of ([ex_df] ! 0))) 0 0 [2001]
         (fst (sort_values_desc [(24011, Fin 0), (24023, Fin 1)] ! 1) + 1)"
    by (simp add: ex_top6 ex_rejects_iff)
  from exhausted_fails [OF a b ex_col6 d] a b ex_col6 e show ?thesis by simp
qed

text \<open>The error at exhaustion is the \<open>TypeError\<close> of the lookup, with the excluded year
  2001 on the series of two years.\<close>

theorem exhausted_error_counterexample:
  "fst (fit (init 6 [2001] 0 0) 0 [ex_df]) = Inl TypeError"
  by (simp add: ex_fit_result)

subsection \<open>The store under fit and predict\<close>

lemma predict_store:
  assumes "predict s n h = (r, h')"
  shows "take (length h) h' = h"
  using assms
  by (auto simp: predict_def Let_def alloc_def split: option.splits list.splits sum.splits if_splits)

text \<open>
  Claim C9.  Neither \<open>calc_corr_last12\<close> nor \<open>fit\<close> nor a \<open>predict\<close> after it changes a
  DataFrame that existed before the call: every object of the caller's store, the input
  series among them, has the index, the labels and the cells it had.  What they write are
  copies that they allocate.
\<close>

theorem caller_frames_unchanged:
  assumes "df < length h" and "fit self df h = (r, s', h')"
    and "predict s' num_meses h' = (r', h'')"
  shows "take (length h) (snd (calc_corr_last12 df h)) = h \<and> snd (calc_corr_last12 df h) ! df = h ! df
       \<and> take (length h) h' = h \<and> h' ! df = h ! df
       \<and> take (length h) h'' = h \<and> h'' ! df = h ! df"
proof -
  have nth: "take (length h) k = h \<Longrightarrow> k ! df = h ! df" for k
    using assms(1) by (metis nth_take)
  have a: "take (length h) (snd (calc_corr_last12 df h)) = h"
    by (rule calc_corr_store [of df h "fst (calc_corr_last12 df h)"]) simp
  have b: "take (length h) h' = h" by (rule fit_run(2) [OF assms(2)])
  have "take (length h') h'' = h'" by (rule predict_store [OF assms(3)])
  then have "take (length h) (take (length h') h'') = h" using b by simp
  moreover have "length h \<le> length h'"
  proof -
    have "length (take (length h) h') = length h" by (simp only: b)
    then show ?thesis by simp
  qed
  ultimately have c: "take (length h) h'' = h" by (simp add: min_def)
  from a b c nth show ?thesis by blast
qed

lemma predict_fitted:
  assumes "fit (init c ign lt gt) df h = (Inr (), s', h')" and "df < length h"
  shows "\<exists>p. period_escolhido_ini' s' = Some p
           \<and> first (h ! df) \<le> p \<and> p < first (h ! df) + int (length (cells (h ! df)))
           \<and> predict s' num_meses h' =
               (Inr (length h'),
                h' @ [iloc_head (loc_from (h ! df) (Some p))
                        (if num_meses \<noteq> None \<and> num_meses \<noteq> Some 0 then the num_meses
                         else 13 - month p)
                        \<lparr>monthly := True,
                         first := first (h ! df) + int (length (cells (h ! df)))\<rparr>])"
proof -
  from fit_accept [OF assms(1,2)]
  obtain p ratio where ne: "cells (h ! df) \<noteq> []"
    and cr: "candidate_ratio (h ! df) p = Some ratio"
    and p: "period_escolhido_ini' s' = Some p"
    by blast
  from cr have rng: "first (h ! df) \<le> p" "p < first (h ! df) + int (length (cells (h ! df)))"
    by (auto simp: candidate_ratio_def loc_def split: if_splits)
  have base: "h' ! length h = h ! df" and a: "df_base s' = Some (length h)"
    using fit_run(3,4) [OF assms(1)] by simp_all
  have ix: "index (h ! df) \<noteq> []" using ne by (simp add: index_def)
  have lst: "last (index (h ! df)) + 1 = first (h ! df) + int (length (cells (h ! df)))"
  proof -
    obtain m where "length (cells (h ! df)) = Suc m"
      using ne by (cases "cells (h ! df)") auto
    then show ?thesis by (simp add: index_def)
  qed
  have "predict s' num_meses h' =
               (Inr (length h'),
                h' @ [iloc_head (loc_from (h ! df) (Some p))
                        (if num_meses \<noteq> None \<and> num_meses \<noteq> Some 0 then the num_meses
                         else 13 - month p)
                        \<lparr>monthly := True,
                         first := first (h ! df) + int (length (cells (h ! df)))\<rparr>])"
    by (simp add: predict_def a p base list.case_eq_if ix lst alloc_def Let_def)
  with p rng show ?thesis by blast
qed

subsection \<open>The rows that predict returns\<close>

lemma ex_fit: "fit (init 6 [] 0 0) 0 [ex_df] = (Inr (), ex_model, ex_store)"
proof -
  have "fst (fit (init 6 [] 0 0) 0 [ex_df]) = Inr ()" by (simp add: ex_fit_result)
  then show ?thesis unfolding ex_model_def ex_store_def by (metis prod.collapse)
qed

lemma ex_period: "period_escolhido_ini' ex_model = Some 24012"
proof -
  have t: "corr_table_of ([ex_df] ! 0) = Inr ex_table_val" by (simp add: ex_table ex_table_val_def)
  from fit_accept [OF ex_fit] obtain t col k where "corr_table_of ([ex_df] ! 0) = Inr t"
    "getitem_col t 6 = Some col" "1 \<le> k" "k < length col"
    "period_escolhido_ini' ex_model = Some (fst (sort_values_desc col ! k) + 1)"
    by auto
  moreover from this t have "col = [(24011, Fin 0), (24023, Fin 1)]" by (simp add: ex_col6)
  moreover from calculation have "k = 1" by simp
  ultimately show ?thesis by (simp add: ex_top6)
qed

lemma ex_predict:
  "predict ex_model num_meses ex_store =
     (Inr (length ex_store),
      ex_store @ [iloc_head (loc_from ex_df (Some 24012))
                    (if num_meses \<noteq> None \<and> num_meses \<noteq> Some 0 then the num_meses else 12)
                    \<lparr>monthly := True, first := 24024\<rparr>])"
proof -
  have m: "13 - month 24012 = 12" by code_simp
  have f: "first ex_df + int (length (cells ex_df)) = 24024" by code_simp
  from predict_fitted [OF ex_fit, of num_meses] show ?thesis
    by (auto simp: ex_period m f)
qed

lemma loc_iloc_head_loc_from:
  assumes "first df \<le> p" and "i < k" and "nat (p - first df) + k \<le> length (cells df)"
  shows "loc ((iloc_head (loc_from df (Some p)) (int k))\<lparr>monthly := True, first := q\<rparr>) (q + int i)
           = loc df (p + int i)"
    and "loc df (p + int i) = Some (cells df ! (nat (p - first df) + i))"
proof -
  let ?d = "nat (p - first df)"
  have c: "cells ((iloc_head (loc_from df (Some p)) (int k))\<lparr>monthly := True, first := q\<rparr>)
            = take k (drop ?d (cells df))"
    by (simp add: iloc_head_def loc_from_def Let_def)
  have l: "length (take k (drop ?d (cells df))) = k" using assms(3) by simp
  have n: "take k (drop ?d (cells df)) ! i = cells df ! (?d + i)"
    using assms(2,3) by simp
  have pi: "nat (p + int i - first df) = ?d + i" using assms(1) by simp
  show "loc df (p + int i) = Some (cells df ! (?d + i))"
    using assms by (simp add: loc_def pi)
  moreover have "loc ((iloc_head (loc_from df (Some p)) (int k))\<lparr>monthly := True, first := q\<rparr>) (q + int i)
           = Some (take k (drop ?d (cells df)) ! i)"
  proof -
    have "i < length (cells df) - ?d" using assms(2,3) by linarith
    then show ?thesis using assms(2) by (simp add: loc_def c del: nth_take nth_drop)
  qed
  ultimately show "loc ((iloc_head (loc_from df (Some p)) (int k))\<lparr>monthly := True, first := q\<rparr>) (q + int i)
           = loc df (p + int i)"
    by (simp only: n)
qed

text \<open>
  A horizon of at least one month.  On a fitted model, when \<open>k \<ge> 1\<close> rows of the base
  series exist from \<open>period_escolhido_ini_\<close> on, \<open>predict(k)\<close> returns a new frame of \<open>k\<close>
  rows with the labels of the base series, whose index is the \<open>k\<close> months after the last
  month of the base series, and whose row \<open>i\<close> is the row of the base series at
  \<open>period_escolhido_ini_ + i\<close>, cell for cell and in the same order.
\<close>

theorem predict_copies_rows:
  assumes "fit (init c ign lt gt) df h = (Inr (), s', h')" and "df < length h"
    and "period_escolhido_ini' s' = Some p"
    and "0 < k" and "nat (p - first (h ! df)) + k \<le> length (cells (h ! df))"
  shows "fst (predict s' (Some (int k)) h') = Inr (length h')
       \<and> (let out = snd (predict s' (Some (int k)) h') ! length h'
          in length (cells out) = k \<and> labels out = labels (h ! df)
           \<and> index out = map (\<lambda>i. last (index (h ! df)) + 1 + int i) [0..<k]
           \<and> (\<forall>i<k. loc out (last (index (h ! df)) + 1 + int i) = loc (h ! df) (p + int i)
                    \<and> loc (h ! df) (p + int i) = Some (cells (h ! df) ! (nat (p - first (h ! df)) + i))))"
proof -
  let ?q = "first (h ! df) + int (length (cells (h ! df)))"
  let ?out = "(iloc_head (loc_from (h ! df) (Some p)) (int k))\<lparr>monthly := True, first := ?q\<rparr>"
  from predict_fitted [OF assms(1,2), of "Some (int k)"] assms(3,4)
  have rng: "first (h ! df) \<le> p"
    and pr: "predict s' (Some (int k)) h' = (Inr (length h'), h' @ [?out])"
    by auto
  have ne: "cells (h ! df) \<noteq> []" using assms(4,5) by auto
  have lst: "last (index (h ! df)) + 1 = ?q"
  proof -
    obtain m where "length (cells (h ! df)) = Suc m"
      using ne by (cases "cells (h ! df)") auto
    then show ?thesis by (simp add: index_def)
  qed
  have len: "length (cells ?out) = k"
    using assms(5) by (simp add: iloc_head_def loc_from_def Let_def)
  have lab: "labels ?out = labels (h ! df)"
    by (simp add: iloc_head_def loc_from_def Let_def)
  have idx: "index ?out = map (\<lambda>i. ?q + int i) [0..<k]"
    unfolding index_def len by simp
  have rows: "\<forall>i<k. loc ?out (?q + int i) = loc (h ! df) (p + int i)
                    \<and> loc (h ! df) (p + int i) = Some (cells (h ! df) ! (nat (p - first (h ! df)) + i))"
    using loc_iloc_head_loc_from [OF rng _ assms(5)] by blast
  show ?thesis
    unfolding pr lst Let_def using len lab idx rows by simp
qed

theorem predict_copies_rows_witness:
  "fit (init 6 [] 0 0) 0 [ex_df] = (Inr (), ex_model, ex_store) \<and> 0 < length [ex_df]
   \<and> period_escolhido_ini' ex_model = Some 24012 \<and> (0::nat) < 3
   \<and> nat (24012 - first ([ex_df] ! 0)) + 3 \<le> length (cells ([ex_df] ! 0))
   \<and> fst (predict ex_model (Some 3) ex_store) = Inr (length ex_store)
   \<and> cells (snd (predict ex_model (Some 3) ex_store) ! length ex_store)
       = [[Fin 2, Fin 0], [Fin 1, Fin 0], [Fin 1, Fin 0]]
   \<and> index (snd (predict ex_model (Some 3) ex_store) ! length ex_store) = [24024, 24025, 24026]"
proof -
  have a: "(0::nat) < length [ex_df]" and b: "(0::nat) < 3" by simp_all
  have c: "nat (24012 - first ([ex_df] ! 0)) + 3 \<le> length (cells ([ex_df] ! 0))"
    by (simp add: ex_df_def)
  have d: "cells (iloc_head (loc_from ex_df (Some 24012)) 3) = [[Fin 2, Fin 0], [Fin 1, Fin 0], [Fin 1, Fin 0]]"
    by code_simp
  have e: "last (index ex_df) = 24023" by code_simp
  have u: "[0..<3] = [0, 1, 2]" by code_simp
  from predict_copies_rows [OF ex_fit a ex_period b c]
  have "index (snd (predict ex_model (Some 3) ex_store) ! length ex_store) = [24024, 24025, 24026]"
    by (simp add: Let_def e u)
  with ex_fit ex_period c show ?thesis by (simp add: ex_predict d)
qed

text \<open>
  Claim C6 at the horizon 0.  The docstring of \<open>predict\<close> gives the months to the end of
  the year as the horizon when \<open>num_meses\<close> is not given.  The test
  \<open>num_meses if num_meses else ...\<close> takes a given \<open>0\<close> for a horizon that is not given:
  on the series of two years zero rows exist from \<open>period_escolhido_ini_\<close> on as they do
  for every series, and \<open>predict(0)\<close> returns not a frame of zero rows but the frame of
  twelve rows that \<open>predict()\<close> returns, the months from January to December 2002 with
  the rows of 2001.
\<close>

theorem predict_zero_default_horizon:
  "period_escolhido_ini' ex_model = Some 24012
   \<and> nat (24012 - first ex_df) + 0 \<le> length (cells ex_df)
   \<and> fst (predict ex_model (Some 0) ex_store) = Inr (length ex_store)
   \<and> length (cells (snd (predict ex_model (Some 0) ex_store) ! length ex_store)) = 12
   \<and> index (snd (predict ex_model (Some 0) ex_store) ! length ex_store)
       = [24024, 24025, 24026, 24027, 24028, 24029, 24030, 24031, 24032, 24033, 24034, 24035]
   \<and> cells (snd (predict ex_model (Some 0) ex_store) ! length ex_store) = drop 12 (cells ex_df)
   \<and> predict ex_model (Some 0) ex_store = predict ex_model None ex_store"
proof -
  have c: "cells (iloc_head (loc_from ex_df (Some 24012)) 12) = drop 12 (cells ex_df)"
    by code_simp
  have l: "length (drop 12 (cells ex_df)) = 12" by code_simp
  have l': "length (cells ex_df) - 12 = 12" by code_simp
  have r: "nat (24012 - first ex_df) + 0 \<le> length (cells ex_df)" by code_simp
  have u: "[0..<12] = [0, 1, 2, 3, 4, 5, 6, 7, 8, 9, 10, 11]" by code_simp
  have i: "index ((iloc_head (loc_from ex_df (Some 24012)) 12)\<lparr>monthly := True, first := 24024\<rparr>)
       = [24024, 24025, 24026, 24027, 24028, 24029, 24030, 24031, 24032, 24033, 24034, 24035]"
    unfolding index_def by (simp add: c l' u)
  show ?thesis using r by (simp add: ex_predict ex_period c l' i)
qed

text \<open>
  Claim C7, as the source has it.  On a fitted model, when fewer than \<open>k\<close> rows of the
  base series remain from \<open>period_escolhido_ini_\<close> on, \<open>predict(k)\<close> raises no error: it
  returns a new frame with the rows that remain, which are fewer than \<open>k\<close>, under the
  labels of the base series, and its index is the months that follow the last month of
  the base series, one for each row.
\<close>

theorem predict_truncates:
  assumes "fit (init c ign lt gt) df h = (Inr (), s', h')" and "df < length h"
    and "period_escolhido_ini' s' = Some p"
    and "length (cells (h ! df)) < nat (p - first (h ! df)) + k"
  shows "fst (predict s' (Some (int k)) h') = Inr (length h')
       \<and> cells (snd (predict s' (Some (int k)) h') ! length h')
           = drop (nat (p - first (h ! df))) (cells (h ! df))
       \<and> length (cells (snd (predict s' (Some (int k)) h') ! length h')) < k
       \<and> length (cells (snd (predict s' (Some (int k)) h') ! length h'))
           = length (cells (h ! df)) - nat (p - first (h ! df))
       \<and> labels (snd (predict s' (Some (int k)) h') ! length h') = labels (h ! df)
       \<and> monthly (snd (predict s' (Some (int k)) h') ! length h')
       \<and> first (snd (predict s' (Some (int k)) h') ! length h') = last (index (h ! df)) + 1
       \<and> index (snd (predict s' (Some (int k)) h') ! length h')
           = map (\<lambda>i. last (index (h ! df)) + 1 + int i)
                 [0..<length (cells (h ! df)) - nat (p - first (h ! df))]
       \<and> (\<forall>i<length (cells (h ! df)) - nat (p - first (h ! df)).
             loc (snd (predict s' (Some (int k)) h') ! length h') (last (index (h ! df)) + 1 + int i)
               = loc (h ! df) (p + int i)
           \<and> loc (h ! df) (p + int i) = Some (cells (h ! df) ! (nat (p - first (h ! df)) + i)))"
proof -
  let ?q = "first (h ! df) + int (length (cells (h ! df)))"
  let ?d = "nat (p - first (h ! df))"
  let ?n = "length (cells (h ! df)) - ?d"
  let ?out = "(iloc_head (loc_from (h ! df) (Some p)) (int k))\<lparr>monthly := True, first := ?q\<rparr>"
  from predict_fitted [OF assms(1,2), of "Some (int k)"] assms(3)
  have lo: "first (h ! df) \<le> p"
    and rng: "p < first (h ! df) + int (length (cells (h ! df)))"
    and pr': "predict s' (Some (int k)) h' =
               (Inr (length h'),
                h' @ [iloc_head (loc_from (h ! df) (Some p))
                        (if Some (int k) \<noteq> None \<and> Some (int k) \<noteq> Some 0 then the (Some (int k))
                         else 13 - month p)
                        \<lparr>monthly := True, first := ?q\<rparr>])"
    by auto
  have k: "0 < k" using assms(4) rng by linarith
  have pr: "predict s' (Some (int k)) h' = (Inr (length h'), h' @ [?out])"
    using pr' k by simp
  have out: "snd (predict s' (Some (int k)) h') ! length h' = ?out" by (simp add: pr)
  have ne: "cells (h ! df) \<noteq> []" using lo rng by auto
  have lst: "last (index (h ! df)) + 1 = ?q"
  proof -
    obtain m where "length (cells (h ! df)) = Suc m"
      using ne by (cases "cells (h ! df)") auto
    then show ?thesis by (simp add: index_def)
  qed
  have c: "cells ?out = drop ?d (cells (h ! df))"
    using assms(4) by (simp add: iloc_head_def loc_from_def Let_def)
  have l: "?n < k" using assms(4) k by linarith
  have len: "length (cells ?out) = ?n" by (simp add: c)
  have lab: "labels ?out = labels (h ! df)"
    by (simp add: iloc_head_def loc_from_def Let_def)
  have idx: "index ?out = map (\<lambda>i. ?q + int i) [0..<?n]"
    unfolding index_def len by simp
  have rows: "\<forall>i<?n. loc ?out (?q + int i) = loc (h ! df) (p + int i)
                    \<and> loc (h ! df) (p + int i) = Some (cells (h ! df) ! (?d + i))"
  proof (intro allI impI)
    fix i assume i: "i < ?n"
    have pi: "nat (p + int i - first (h ! df)) = ?d + i" using lo by simp
    have a: "loc (h ! df) (p + int i) = Some (cells (h ! df) ! (?d + i))"
      using lo i by (simp add: loc_def pi)
    have ii: "int i < int (length (cells (h ! df))) - (p - first (h ! df))"
      using i lo by linarith
    have "loc ?out (?q + int i) = Some (drop ?d (cells (h ! df)) ! i)"
      using i ii lo by (simp add: loc_def c del: nth_drop)
    also have "\<dots> = Some (cells (h ! df) ! (?d + i))" using i by simp
    finally show "loc ?out (?q + int i) = loc (h ! df) (p + int i)
                    \<and> loc (h ! df) (p + int i) = Some (cells (h ! df) ! (?d + i))"
      using a by simp
  qed
  have f: "first ?out = ?q" and mo: "monthly ?out" by simp_all
  show ?thesis
    unfolding out lst
    apply (intro conjI)
            apply (simp add: pr)
           apply (rule c)
          apply (simp only: len l)
         apply (rule len)
        apply (rule lab)
       apply (rule mo)
      apply (rule f)
     apply (rule idx)
    apply (rule rows)
    done
qed

theorem predict_truncates_witness:
  "fit (init 6 [] 0 0) 0 [ex_df] = (Inr (), ex_model, ex_store) \<and> 0 < length [ex_df]
   \<and> period_escolhido_ini' ex_model = Some 24012
   \<and> length (cells ([ex_df] ! 0)) < nat (24012 - first ([ex_df] ! 0)) + 20
   \<and> fst (predict ex_model (Some 20) ex_store) = Inr (length ex_store)
   \<and> length (cells (snd (predict ex_model (Some 20) ex_store) ! length ex_store)) < 20
   \<and> index (snd (predict ex_model (Some 20) ex_store) ! length ex_store)
       = [24024, 24025, 24026, 24027, 24028, 24029, 24030, 24031, 24032, 24033, 24034, 24035]"
proof -
  have a: "(0::nat) < length [ex_df]" by simp
  have c: "length (cells ([ex_df] ! 0)) < nat (24012 - first ([ex_df] ! 0)) + 20"
    by (simp add: ex_df_def)
  have e: "last (index ex_df) = 24023" by code_simp
  have n: "length (cells ex_df) - nat (24012 - first ex_df) = 12" by code_simp
  have u: "[0..<12] = [0, 1, 2, 3, 4, 5, 6, 7, 8, 9, 10, 11]" by code_simp
  from predict_truncates [OF ex_fit a ex_period c]
  have "index (snd (predict ex_model (Some 20) ex_store) ! length ex_store)
       = [24024, 24025, 24026, 24027, 24028, 24029, 24030, 24031, 24032, 24033, 24034, 24035]"
    by (simp add: e n u)
  moreover from predict_truncates [OF ex_fit a ex_period c]
  have "fst (predict ex_model (Some 20) ex_store) = Inr (length ex_store)"
    "length (cells (snd (predict ex_model (Some 20) ex_store) ! length ex_store)) < 20"
    by simp_all
  ultimately show ?thesis using ex_fit ex_period c by simp
qed

text \<open>With twelve rows left, \<open>predict(13)\<close> returns twelve rows and no error.\<close>

theorem predict_short_counterexample:
  "period_escolhido_ini' ex_model = Some 24012
   \<and> length (cells ex_df) < nat (24012 - first ex_df) + 13
   \<and> fst (predict ex_model (Some 13) ex_store) = Inr (length ex_store)
   \<and> length (cells (snd (predict ex_model (Some 13) ex_store) ! length ex_store)) = 12"
proof -
  have "length (cells (iloc_head (loc_from ex_df (Some 24012)) 13)) = 12" by code_simp
  moreover have "length (cells ex_df) < nat (24012 - first ex_df) + 13" by code_simp
  ultimately show ?thesis by (simp add: ex_predict ex_period)
qed

theorem caller_frames_unchanged_witness:
  "0 < length [ex_df] \<and> fit (init 6 [] 0 0) 0 [ex_df] = (Inr (), ex_model, ex_store)
   \<and> predict ex_model (Some 3) ex_store = (Inr (length ex_store), snd (predict ex_model (Some 3) ex_store))
   \<and> snd (calc_corr_last12 0 [ex_df]) ! 0 = ex_df \<and> ex_store ! 0 = ex_df
   \<and> snd (predict ex_model (Some 3) ex_store) ! 0 = ex_df"
proof -
  have a: "(0::nat) < length [ex_df]" by simp
  have p: "predict ex_model (Some 3) ex_store = (Inr (length ex_store), snd (predict ex_model (Some 3) ex_store))"
    by (simp add: ex_predict)
  from caller_frames_unchanged [OF a ex_fit p] ex_fit p show ?thesis by simp
qed

subsection \<open>The bounds of the ratios\<close>

lemma month_rows_map:
  assumes "cells f = map g [0..<n]"
  shows "month_rows f m =
           map (\<lambda>t. (first f + int t, g t)) (filter (\<lambda>t. month (first f + int t) = m) [0..<n])"
proof -
  have i: "index f = map (\<lambda>i. first f + int i) [0..<n]"
    by (simp add: index_def assms)
  have z: "zip (map (\<lambda>i. first f + int i) [0..<n]) (map g [0..<n])
        = map (\<lambda>i. (first f + int i, g i)) [0..<n]"
    by (simp add: zip_map_map zip_same_conv_map)
  show ?thesis
    unfolding month_rows_def assms i z filter_map by (simp add: comp_def)
qed

lemma length_shift_up: "cells df \<noteq> [] \<Longrightarrow> length (shift_up df) = length (cells df)"
  by (cases "cells df") (simp_all add: shift_up_def)

lemma shift_up_nth:
  assumes "Suc t < length (cells df)"
  shows "shift_up df ! t = cells df ! Suc t"
proof (cases "cells df")
  case Nil
  with assms show ?thesis by simp
next
  case (Cons r rs)
  with assms show ?thesis by (simp add: shift_up_def nth_append)
qed

lemma shift_up_last:
  assumes "cells df \<noteq> []"
  shows "shift_up df ! (length (cells df) - 1) = replicate (length (labels df)) NaN"
proof (cases "cells df")
  case Nil
  with assms show ?thesis by simp
next
  case (Cons r rs)
  then show ?thesis by (simp add: shift_up_def nth_append)
qed

lemma shift_up_last':
  "cells df \<noteq> [] \<Longrightarrow> shift_up df ! (length (cells df) - Suc 0) = replicate (length (labels df)) NaN"
  using shift_up_last [of df] by simp

lemma df_ratio_cell:
  assumes "wf_frame df" and "cells df \<noteq> []" and "t < length (cells df)" and "j < length (labels df)"
  shows "cells (df_ratio df) ! t ! j = ratio_cell df j t"
proof -
  let ?n = "length (cells df)"
  have lt: "length (cells df ! t) = length (labels df)"
    using assms(1,3) by (simp add: wf_frame_def list_all_length)
  have ls: "length (shift_up df ! t) = length (labels df)"
  proof (cases "Suc t < ?n")
    case True
    then show ?thesis using assms(1) by (simp add: shift_up_nth wf_frame_def list_all_length)
  next
    case False
    with assms(3) have "t = ?n - 1" by simp
    then show ?thesis using shift_up_last [OF assms(2)] by simp
  qed
  have "cells (df_ratio df) ! t = map positive_finite (map2 flt_div (cells df ! t) (shift_up df ! t))"
    using assms(3) length_shift_up [OF assms(2)] by (simp add: df_ratio_def)
  then show ?thesis using lt ls assms(4) by (simp add: ratio_cell_def)
qed

lemma ratio_cell_last:
  assumes "cells df \<noteq> []" and "j < length (labels df)"
  shows "ratio_cell df j (length (cells df) - 1) = NaN"
proof -
  have "flt_div x NaN = NaN" for x by (cases x) simp_all
  then show ?thesis
    using assms(2) by (simp add: ratio_cell_def shift_up_last' [OF assms(1)] positive_finite_def)
qed

lemma entries_column:
  assumes "wf_frame df" and "cells df \<noteq> []" and "j < length (labels df)"
  shows "column j (map snd (entries (ratio_mes_of df)))
       = map (ratio_cell df j)
           (filter (\<lambda>t. month (first df + int t) = month (last (index df))) [0..<length (cells df)])"
proof -
  let ?n = "length (cells df)"
  have len: "length (cells (df_ratio df)) = ?n"
    using length_shift_up [OF assms(2)] by (simp add: df_ratio_def)
  have c: "cells (df_ratio df) = map (\<lambda>t. cells (df_ratio df) ! t) [0..<?n]"
    using len by (metis map_nth)
  have f: "first (df_ratio df) = first df" by (simp add: df_ratio_def)
  have "column j (map snd (entries (ratio_mes_of df)))
      = map (\<lambda>t. cells (df_ratio df) ! t ! j)
          (filter (\<lambda>t. month (first df + int t) = month (last (index df))) [0..<?n])"
    unfolding ratio_mes_of_def Let_def column_def
    by (simp add: month_rows_map [OF c] f comp_def)
  also have "\<dots> = map (ratio_cell df j)
          (filter (\<lambda>t. month (first df + int t) = month (last (index df))) [0..<?n])"
    using df_ratio_cell [OF assms(1,2) _ assms(3)] by (intro map_cong) auto
  finally show ?thesis .
qed

lemma last_index: "cells df \<noteq> [] \<Longrightarrow> last (index df) = first df + int (length (cells df) - 1)"
  by (cases "cells df" rule: rev_cases) (simp_all add: index_def)

lemma filter_map_concat:
  "filter P (map g ts) = concat (map (\<lambda>t. if P (g t) then [g t] else []) ts)"
  by (induction ts) simp_all

lemma positive_finite_retained:
  "(if positive_finite r \<noteq> NaN then [positive_finite r] else [])
     = map Fin (case r of Fin x \<Rightarrow> if 0 < x then [x] else [] | _ \<Rightarrow> [])"
  by (cases r) (simp_all add: positive_finite_def)

lemma retained_filter:
  assumes "wf_frame df" and "cells df \<noteq> []" and "j < length (labels df)"
  shows "filter (\<lambda>x. x \<noteq> NaN) (column j (map snd (entries (ratio_mes_of df))))
       = map Fin (retained_ratios df j)"
proof -
  let ?n = "length (cells df)"
  let ?P = "\<lambda>t. month (first df + int t) = month (last (index df))"
  have n: "[0..<?n] = [0..<?n - 1] @ [?n - 1]"
    using assms(2) by (cases "cells df" rule: rev_cases) simp_all
  have P: "?P (?n - 1)" by (simp only: last_index [OF assms(2)])
  have ts: "filter ?P [0..<?n] = filter ?P [0..<?n - 1] @ [?n - 1]"
  proof -
    have "?P (?n - Suc 0)" using P by simp
    then show ?thesis by (subst n) simp
  qed
  have g: "(if ratio_cell df j t \<noteq> NaN then [ratio_cell df j t] else [])
         = map Fin (case flt_div (cells df ! t ! j) (cells df ! Suc t ! j) of
                      Fin x \<Rightarrow> if 0 < x then [x] else [] | _ \<Rightarrow> [])"
    if "t \<in> set (filter ?P [0..<?n - 1])" for t
  proof -
    from that have "Suc t < ?n" by auto
    then show ?thesis
      unfolding ratio_cell_def by (simp only: shift_up_nth positive_finite_retained)
  qed
  have "filter (\<lambda>x. x \<noteq> NaN) (column j (map snd (entries (ratio_mes_of df))))
      = filter (\<lambda>x. x \<noteq> NaN) (map (ratio_cell df j) (filter ?P [0..<?n - 1]))"
  proof -
    have "ratio_cell df j (?n - Suc 0) = NaN" using ratio_cell_last [OF assms(2,3)] by simp
    then show ?thesis unfolding entries_column [OF assms] ts by simp
  qed
  also have "\<dots> = concat (map (\<lambda>t. if ratio_cell df j t \<noteq> NaN then [ratio_cell df j t] else [])
                            (filter ?P [0..<?n - 1]))"
    by (rule filter_map_concat)
  also have "\<dots> = concat (map (\<lambda>t. map Fin (case flt_div (cells df ! t ! j) (cells df ! Suc t ! j) of
                      Fin x \<Rightarrow> if 0 < x then [x] else [] | _ \<Rightarrow> []))
                            (filter ?P [0..<?n - 1]))"
    using g by (intro arg_cong [where f = concat] map_cong) auto
  also have "\<dots> = map Fin (retained_ratios df j)"
    unfolding retained_ratios_def by (simp add: map_concat comp_def)
  finally show ?thesis .
qed

lemma fold_flt_min: "fold flt_min (map Fin xs) (Fin x) = Fin (fold min xs x)"
proof (induction xs arbitrary: x)
  case Nil
  then show ?case by simp
next
  case (Cons y ys)
  have "flt_min (Fin y) (Fin x) = Fin (min y x)" by (simp add: flt_min_def min_def)
  with Cons show ?case by simp
qed

lemma fold_flt_max: "fold flt_max (map Fin xs) (Fin x) = Fin (fold max xs x)"
proof (induction xs arbitrary: x)
  case Nil
  then show ?case by simp
next
  case (Cons y ys)
  have "flt_max (Fin y) (Fin x) = Fin (max y x)" by (simp add: flt_max_def max_def)
  with Cons show ?case by simp
qed

lemma nanmin_retained:
  assumes "filter (\<lambda>x. x \<noteq> NaN) ys = map Fin rs"
  shows "nanmin ys = (if rs = [] then NaN else Fin (Min (set rs)))"
    and "nanmax ys = (if rs = [] then NaN else Fin (Max (set rs)))"
proof -
  show "nanmin ys = (if rs = [] then NaN else Fin (Min (set rs)))"
  proof (cases rs)
    case Nil
    with assms show ?thesis by (simp add: nanmin_def)
  next
    case (Cons x xs)
    then show ?thesis
      unfolding nanmin_def assms by (simp add: fold_flt_min Min.set_eq_fold del: set_simps)
  qed
  show "nanmax ys = (if rs = [] then NaN else Fin (Max (set rs)))"
  proof (cases rs)
    case Nil
    with assms show ?thesis by (simp add: nanmax_def)
  next
    case (Cons x xs)
    then show ?thesis
      unfolding nanmax_def assms by (simp add: fold_flt_max Max.set_eq_fold del: set_simps)
  qed
qed

lemma amplitudes_of_retained:
  assumes "wf_frame df" and "cells df \<noteq> []" and "j < length (labels df)"
  shows "amp_min (amplitudes_of (ratio_mes_of df)) ! j
           = (if retained_ratios df j = [] then NaN else Fin (Min (set (retained_ratios df j))))"
    and "amp_max (amplitudes_of (ratio_mes_of df)) ! j
           = (if retained_ratios df j = [] then NaN else Fin (Max (set (retained_ratios df j))))"
proof -
  have l: "t_labels (ratio_mes_of df) = labels df"
    by (simp add: ratio_mes_of_def Let_def df_ratio_def)
  show "amp_min (amplitudes_of (ratio_mes_of df)) ! j
           = (if retained_ratios df j = [] then NaN else Fin (Min (set (retained_ratios df j))))"
    using assms(3) nanmin_retained(1) [OF retained_filter [OF assms]]
    by (simp add: amplitudes_of_def l)
  show "amp_max (amplitudes_of (ratio_mes_of df)) ! j
           = (if retained_ratios df j = [] then NaN else Fin (Max (set (retained_ratios df j))))"
    using assms(3) nanmin_retained(2) [OF retained_filter [OF assms]]
    by (simp add: amplitudes_of_def l)
qed

subsection \<open>Bounds and counts after fit\<close>

lemma walk_amplitudes:
  "walk b tc ps s = (r, s') \<Longrightarrow> amplitudes' s = Some amp
     \<Longrightarrow> \<exists>e. amplitudes' s' = Some (amp\<lparr>escolhido := e\<rparr>)"
proof (induction ps arbitrary: s)
  case Nil
  then have "amplitudes' s' = Some (amp\<lparr>escolhido := escolhido amp\<rparr>)" by simp
  then show ?case by (rule exI)
next
  case (Cons k ps)
  let ?p = "fst (tc ! k) + 1"
  show ?case
  proof (cases "loc b ?p")
    case None
    with Cons.prems have "amplitudes' s' = Some (amp\<lparr>escolhido := escolhido amp\<rparr>)" by simp
    then show ?thesis by (rule exI)
  next
    case (Some cand)
    define ratio where "ratio = map2 flt_div cand (last (cells b))"
    consider (rej) x where "walk b tc ps (reject s x) = (r, s')"
      | (acc) "amplitudes' s' = Some (amp\<lparr>escolhido := Some ratio\<rparr>)"
      using Cons.prems Some by (auto simp: Let_def ratio_def split: if_splits)
    then show ?thesis
    proof cases
      case rej
      from Cons.IH [OF rej] Cons.prems(2) show ?thesis by simp
    next
      case acc
      then show ?thesis by (rule exI)
    qed
  qed
qed

lemma finish_amplitudes: "finish t tc s = (r, s') \<Longrightarrow> amplitudes' s' = amplitudes' s"
  by (auto simp: finish_def Let_def split: option.splits if_splits)

lemma fit_amplitudes:
  assumes "fit (init c ign lt gt) df h = (r, s', h')" and "amplitudes' s' = Some amp"
  shows "cells (h ! df) \<noteq> []"
    and "amp_min amp = amp_min (amplitudes_of (ratio_mes_of (h ! df)))"
    and "amp_max amp = amp_max (amplitudes_of (ratio_mes_of (h ! df)))"
proof -
  let ?self = "init c ign lt gt"
  let ?amp = "amplitudes_of (ratio_mes_of (h ! df))"
  have "cells (h ! df) \<noteq> [] \<and> (\<exists>e. amplitudes' s' = Some (?amp\<lparr>escolhido := e\<rparr>))"
    using fit_run(1) [OF assms(1)]
  proof (rule disjE)
    assume "amplitudes' s' = amplitudes' ?self \<and> posicao' s' = posicao' ?self
            \<and> anos_rejeitados' s' = anos_rejeitados' ?self
            \<and> ((\<exists>e. fst (calc_corr_last12 df (h @ [h ! df])) = Inl e \<and> r = Inl e)
               \<or> (\<exists>t. fst (calc_corr_last12 df (h @ [h ! df])) = Inr t
                     \<and> getitem_col t (coluna ?self) = None \<and> r = Inl KeyError)
               \<or> (cells (h ! df) = [] \<and> r = Inl IndexError))"
    then have "amplitudes' s' = None" by (simp add: init_def)
    with assms(2) show ?thesis by simp
  next
    assume "\<exists>t col r4 s4.
             fst (calc_corr_last12 df (h @ [h ! df])) = Inr t
           \<and> getitem_col t (coluna ?self) = Some col
           \<and> cells (h ! df) \<noteq> []
           \<and> walk (h ! df) (sort_values_desc col) [1..<length col]
                (before_loop ?self (length h) t (h ! df)) = (r4, s4)
           \<and> (case r4 of Inl e \<Rightarrow> r = Inl e \<and> s' = s4
                | Inr _ \<Rightarrow> finish t (sort_values_desc col) s4 = (r, s'))"
    then obtain t col r4 s4 where ne: "cells (h ! df) \<noteq> []"
      and w: "walk (h ! df) (sort_values_desc col) [1..<length col]
                (before_loop ?self (length h) t (h ! df)) = (r4, s4)"
      and f: "case r4 of Inl e \<Rightarrow> r = Inl e \<and> s' = s4
                | Inr _ \<Rightarrow> finish t (sort_values_desc col) s4 = (r, s')"
      by blast
    have "amplitudes' (before_loop ?self (length h) t (h ! df)) = Some ?amp"
      by (simp add: before_loop_def)
    from walk_amplitudes [OF w this] obtain e where "amplitudes' s4 = Some (?amp\<lparr>escolhido := e\<rparr>)"
      by blast
    moreover have "amplitudes' s' = amplitudes' s4"
      using f by (cases r4) (simp_all add: finish_amplitudes)
    ultimately have "amplitudes' s' = Some (?amp\<lparr>escolhido := e\<rparr>)" by simp
    with ne show ?thesis by blast
  qed
  with assms(2) show "cells (h ! df) \<noteq> []"
    and "amp_min amp = amp_min ?amp" and "amp_max amp = amp_max ?amp"
    by auto
qed

text \<open>
  Claim C4.  After \<open>fit\<close> on a fresh instance has set \<open>amplitudes_\<close>, for every station
  with at least one retained ratio \<open>amplitudes_['min']\<close> and \<open>amplitudes_['max']\<close> are the
  minimum and the maximum of its retained ratios: the ratios \<open>value[t] / value[t+1]\<close> over
  the rows \<open>t\<close> of the calendar month of the last row that are finite and positive.  A
  ratio that is zero, negative, infinite or \<open>NaN\<close> (a missing value among them, and the
  last row, which has no next row) is left out.
\<close>

theorem amplitude_bounds:
  assumes "fit (init c ign lt gt) df h = (r, s', h')" and "amplitudes' s' = Some amp"
    and "wf_frame (h ! df)" and "j < length (labels (h ! df))"
    and "retained_ratios (h ! df) j \<noteq> []"
  shows "amp_min amp ! j = Fin (Min (set (retained_ratios (h ! df) j)))
       \<and> amp_max amp ! j = Fin (Max (set (retained_ratios (h ! df) j)))"
  using fit_amplitudes [OF assms(1,2)] amplitudes_of_retained [OF assms(3) _ assms(4)] assms(5)
  by simp

lemma ex_retained: "retained_ratios ex_df 0 = [1]" "retained_ratios ex_df (Suc 0) = []"
  by code_simp+

lemma ex_amplitudes: "\<exists>e. amplitudes' ex_model = Some \<lparr>amp_min = [Fin 1, NaN], amp_max = [Fin 1, NaN], escolhido = e\<rparr>"
proof -
  from fit_accept [OF ex_fit]
  obtain ratio where "amplitudes' ex_model = Some ((amplitudes_of (ratio_mes_of ([ex_df] ! 0)))\<lparr>escolhido := Some ratio\<rparr>)"
    by auto
  then show ?thesis by (simp add: ex_amp)
qed

theorem amplitude_bounds_witness:
  "fit (init 6 [] 0 0) 0 [ex_df] = (Inr (), ex_model, ex_store)
   \<and> wf_frame ([ex_df] ! 0) \<and> 0 < length (labels ([ex_df] ! 0))
   \<and> retained_ratios ([ex_df] ! 0) 0 = [1]
   \<and> map_option (\<lambda>amp. (amp_min amp ! 0, amp_max amp ! 0)) (amplitudes' ex_model) = Some (Fin 1, Fin 1)"
proof -
  obtain e where a: "amplitudes' ex_model = Some \<lparr>amp_min = [Fin 1, NaN], amp_max = [Fin 1, NaN], escolhido = e\<rparr>"
    using ex_amplitudes by blast
  have w: "wf_frame ([ex_df] ! 0)" using ex_wf by simp
  have l: "0 < length (labels ([ex_df] ! 0))" by (simp add: ex_df_def)
  have n: "retained_ratios ([ex_df] ! 0) 0 \<noteq> []" by (simp add: ex_retained)
  from amplitude_bounds [OF ex_fit a w l n] ex_fit w l a show ?thesis
    by (simp add: ex_retained)
qed




text \<open>
  Claim C10.  In the test of a candidate, a station whose ratio is \<open>NaN\<close> (as it is when
  the value at the candidate month or at the last month is missing) or whose bounds are
  \<open>NaN\<close> (as they are when it has no retained ratio) is counted neither in \<open>gt_max\<close> nor
  in \<open>lt_min\<close>: both counts are the counts over the other stations.
\<close>

theorem nan_station_not_counted:
  assumes "candidate_ratio df p = Some ratio" and "wf_frame df" and "j < length (labels df)"
    and "retained_ratios df j = [] \<or> ratio ! j = NaN
         \<or> (\<exists>cand. loc df p = Some cand \<and> (cand ! j = NaN \<or> last (cells df) ! j = NaN))"
  shows "count_gt_max ratio (amplitudes_of (ratio_mes_of df))
           = card {i. i < length (labels df) \<and> i \<noteq> j
                      \<and> flt_gt (ratio ! i) (amp_max (amplitudes_of (ratio_mes_of df)) ! i)}
       \<and> count_lt_min ratio (amplitudes_of (ratio_mes_of df))
           = card {i. i < length (labels df) \<and> i \<noteq> j
                      \<and> flt_lt (ratio ! i) (amp_min (amplitudes_of (ratio_mes_of df)) ! i)}"
proof -
  let ?n = "length (labels df)"
  let ?amp = "amplitudes_of (ratio_mes_of df)"
  from assms(1) obtain cand where c: "loc df p = Some cand"
    and r: "ratio = map2 flt_div cand (last (cells df))"
    by (auto simp: candidate_ratio_def)
  have ne: "cells df \<noteq> []" using loc_row [OF c] by auto
  have lc: "length cand = ?n" using wf_row_length [OF assms(2) loc_row [OF c]] .
  have ll: "length (last (cells df)) = ?n" using wf_row_length [OF assms(2)] ne by simp
  have lr: "length ratio = ?n" using lc ll by (simp add: r)
  have rj: "ratio ! j = flt_div (cand ! j) (last (cells df) ! j)"
    using assms(3) lc ll by (simp add: r)
  have nan: "flt_div NaN x = NaN" "flt_div x NaN = NaN" for x by (cases x; simp)+
  have lt: "\<not> flt_lt NaN x" "\<not> flt_lt x NaN" for x by (cases x; simp)+
  have "ratio ! j = NaN \<or> (amp_min ?amp ! j = NaN \<and> amp_max ?amp ! j = NaN)"
    using assms(4) c rj nan amplitudes_of_retained [OF assms(2) ne assms(3)] by auto
  then have j: "\<not> flt_gt (ratio ! j) (amp_max ?amp ! j)" "\<not> flt_lt (ratio ! j) (amp_min ?amp ! j)"
    using lt by (auto simp: flt_gt_def)
  have "count_gt_max ratio ?amp = card {i. i < ?n \<and> flt_gt (ratio ! i) (amp_max ?amp ! i)}"
    unfolding count_gt_max_def by (rule count_true_map2 [OF lr]) simp
  also have "{i. i < ?n \<and> flt_gt (ratio ! i) (amp_max ?amp ! i)}
      = {i. i < ?n \<and> i \<noteq> j \<and> flt_gt (ratio ! i) (amp_max ?amp ! i)}"
    using j(1) by auto
  finally have g: "count_gt_max ratio ?amp
      = card {i. i < ?n \<and> i \<noteq> j \<and> flt_gt (ratio ! i) (amp_max ?amp ! i)}" .
  have "count_lt_min ratio ?amp = card {i. i < ?n \<and> flt_lt (ratio ! i) (amp_min ?amp ! i)}"
    unfolding count_lt_min_def by (rule count_true_map2 [OF lr]) simp
  also have "{i. i < ?n \<and> flt_lt (ratio ! i) (amp_min ?amp ! i)}
      = {i. i < ?n \<and> i \<noteq> j \<and> flt_lt (ratio ! i) (amp_min ?amp ! i)}"
    using j(2) by auto
  finally have l: "count_lt_min ratio ?amp
      = card {i. i < ?n \<and> i \<noteq> j \<and> flt_lt (ratio ! i) (amp_min ?amp ! i)}" .
  from g l show ?thesis by simp
qed

theorem nan_station_not_counted_witness:
  "candidate_ratio ex_df 24012 = Some [Fin 1, NaN] \<and> wf_frame ex_df \<and> 1 < length (labels ex_df)
   \<and> retained_ratios ex_df 1 = [] \<and> [Fin 1, NaN] ! 1 = NaN
   \<and> count_gt_max [Fin 1, NaN] (amplitudes_of (ratio_mes_of ex_df))
       = card {i. i < length (labels ex_df) \<and> i \<noteq> 1
                  \<and> flt_gt ([Fin 1, NaN] ! i) (amp_max (amplitudes_of (ratio_mes_of ex_df)) ! i)}
   \<and> count_gt_max [Fin 1, NaN] (amplitudes_of (ratio_mes_of ex_df)) = 0"
proof -
  have l: "1 < length (labels ex_df)" by (simp add: ex_df_def)
  have n: "retained_ratios ex_df 1 = [] \<or> [Fin 1, NaN] ! 1 = NaN
         \<or> (\<exists>cand. loc ex_df 24012 = Some cand \<and> (cand ! 1 = NaN \<or> last (cells ex_df) ! 1 = NaN))"
    by (simp add: ex_retained)
  from nan_station_not_counted [OF ex_ratio ex_wf l n] ex_ratio ex_wf l show ?thesis
    by (simp add: ex_retained ex_counts)
qed

subsection \<open>The order of the ranked list\<close>

lemma desc_key_le:
  assumes "desc_key a \<le> desc_key b"
  shows "\<not> flt_lt a b" and "a = NaN \<Longrightarrow> b = NaN"
  using assms by (cases a; cases b; simp)+

lemma desc_key_inj: "desc_key a = desc_key b \<Longrightarrow> a = b"
  by (cases a; cases b; simp)

lemma sorted_sort_values_desc:
  "sorted (map (\<lambda>e. desc_key (snd e)) (sort_values_desc col))"
  unfolding sort_values_desc_def case_prod_beta by (rule sorted_sort_key)

lemma sort_values_desc_descending:
  assumes "i < k" and "k < length (sort_values_desc col)"
  shows "\<not> flt_lt (snd (sort_values_desc col ! i)) (snd (sort_values_desc col ! k))"
    and "snd (sort_values_desc col ! i) = NaN \<Longrightarrow> snd (sort_values_desc col ! k) = NaN"
proof -
  let ?tc = "sort_values_desc col"
  have "map (\<lambda>e. desc_key (snd e)) ?tc ! i \<le> map (\<lambda>e. desc_key (snd e)) ?tc ! k"
    using sorted_sort_values_desc assms by (intro sorted_nth_mono) simp_all
  then have le: "desc_key (snd (?tc ! i)) \<le> desc_key (snd (?tc ! k))" using assms by simp
  show "\<not> flt_lt (snd (?tc ! i)) (snd (?tc ! k))" by (rule desc_key_le(1) [OF le])
  show "snd (?tc ! i) = NaN \<Longrightarrow> snd (?tc ! k) = NaN" by (rule desc_key_le(2) [OF le])
qed

lemma desc_key_le_iff:
  "(desc_key v \<le> desc_key w) = (\<not> flt_lt v w \<and> (v = NaN \<longrightarrow> w = NaN))"
  by (cases v; cases w; auto)

lemma descending_nan_last_sorted:
  "descending_nan_last vs = sorted (map desc_key vs)"
  by (induction vs) (simp_all add: desc_key_le_iff)

lemma descending_sort_values_desc:
  "descending_nan_last (map snd (sort_values_desc col))"
  using sorted_sort_values_desc [of col] by (simp add: descending_nan_last_sorted comp_def)

lemma sorted_mset_unique:
  fixes xs ys :: "('a::linorder) list"
  assumes "mset xs = mset ys" and "sorted xs" and "sorted ys"
  shows "xs = ys"
proof -
  have "sort ys = xs" using assms(1,2) by (rule properties_for_sort)
  moreover have "sort ys = ys" using assms(3) by (rule sort_key_id_if_sorted [of "\<lambda>x. x", simplified])
  ultimately show ?thesis by simp
qed

lemma descending_values_unique:
  assumes "mset tc = mset col" and "descending_nan_last (map snd tc)"
  shows "map snd tc = map snd (sort_values_desc col)"
proof -
  let ?k = "\<lambda>e. desc_key (snd e)"
  have m: "mset (sort_values_desc col) = mset col" by (simp add: sort_values_desc_def)
  have "mset (map ?k tc) = mset (map ?k (sort_values_desc col))"
    by (simp only: mset_map assms(1) m)
  moreover have "sorted (map ?k tc)"
    using assms(2) by (simp add: descending_nan_last_sorted comp_def)
  ultimately have "map ?k tc = map ?k (sort_values_desc col)"
    using sorted_sort_values_desc [of col] by (rule sorted_mset_unique)
  then have "map desc_key (map snd tc) = map desc_key (map snd (sort_values_desc col))"
    by (simp add: comp_def)
  moreover have "inj desc_key" by (rule injI) (rule desc_key_inj)
  ultimately show ?thesis by (simp only: inj_map_eq_map)
qed

subsection \<open>The frame that the loop over the months builds\<close>

lemma setitem_month_fields [simp]:
  "first (setitem_month f m row) = first f"
  "labels (setitem_month f m row) = labels f"
  "monthly (setitem_month f m row) = monthly f"
  "length (cells (setitem_month f m row)) = length (cells f)"
  by (simp_all add: setitem_month_def index_def)

lemma setitem_month_nth:
  assumes "i < length (cells f)"
  shows "cells (setitem_month f m row) ! i = (if month (first f + int i) = m then row else cells f ! i)"
  using assms by (simp add: setitem_month_def index_def)

lemma spread_frame_of_ok:
  assumes "\<forall>m\<in>set ms. month_rows tr m \<noteq> []"
  shows "\<exists>f'. spread_frame_of tr ms f = (Inr (), f') \<and> first f' = first f \<and> labels f' = labels f
            \<and> monthly f' = monthly f \<and> length (cells f') = length (cells f)
            \<and> (\<forall>i<length (cells f). cells f' ! i =
                  (if month (first f + int i) \<in> set ms
                   then snd (hd (month_rows tr (month (first f + int i)))) else cells f ! i))"
  using assms
proof (induction ms arbitrary: f)
  case Nil
  then show ?case by simp
next
  case (Cons m ms)
  from Cons.prems obtain p row rest where mr: "month_rows tr m = (p, row) # rest"
    by (cases "month_rows tr m") auto
  let ?f1 = "setitem_month f m row"
  from Cons.prems have "\<forall>m\<in>set ms. month_rows tr m \<noteq> []" by simp
  from Cons.IH [OF this, of ?f1]
  obtain f' where f': "spread_frame_of tr ms ?f1 = (Inr (), f')" "first f' = first f"
    "labels f' = labels f" "monthly f' = monthly f" "length (cells f') = length (cells f)"
    and rows: "\<forall>i<length (cells f). cells f' ! i =
                  (if month (first f + int i) \<in> set ms
                   then snd (hd (month_rows tr (month (first f + int i)))) else cells ?f1 ! i)"
    by auto
  have "\<forall>i<length (cells f). cells f' ! i =
                  (if month (first f + int i) \<in> set (m # ms)
                   then snd (hd (month_rows tr (month (first f + int i)))) else cells f ! i)"
    using rows by (auto simp: setitem_month_nth mr)
  moreover have "spread_frame_of tr (m # ms) f = (Inr (), f')" using f'(1) by (simp add: mr)
  ultimately show ?case using f'(2-5) by blast
qed

lemma month_range: "month p \<in> set [1..12]"
  by (simp add: month_def)

lemma month_shift:
  assumes "month (p + int i) = month (p + int k)" and "i < 12" and "k < 12"
  shows "i = k"
proof -
  have "(p + int i) mod 12 = (p + int k) mod 12" using assms(1) by (simp add: month_def)
  then have "12 dvd (p + int i) - (p + int k)" by (simp add: mod_eq_dvd_iff)
  then have "12 dvd int i - int k" by simp
  then obtain q where q: "int i - int k = 12 * q" ..
  have "- 12 < int i - int k" "int i - int k < 12" using assms(2,3) by simp_all
  with q have "q = 0" by linarith
  with q show ?thesis by simp
qed

lemma hd_filter_first:
  assumes "k < length xs" and "P (xs ! k)" and "\<forall>i<k. \<not> P (xs ! i)"
  shows "hd (filter P xs) = xs ! k"
proof -
  have xs: "xs = take k xs @ xs ! k # drop (Suc k) xs" using assms(1) by (rule id_take_nth_drop)
  have "filter P (take k xs) = []"
    using assms(1,3) by (auto simp: filter_empty_conv in_set_conv_nth)
  then have "filter P xs = xs ! k # filter P (drop (Suc k) xs)"
    by (subst xs) (simp add: assms(2))
  then show ?thesis by simp
qed

lemma iloc_last12_fields:
  assumes "12 \<le> length (cells df)"
  shows "first (iloc_last12 df) = first df + int (length (cells df) - 12)"
    and "length (cells (iloc_last12 df)) = 12"
    and "\<And>k. k < 12 \<Longrightarrow> cells (iloc_last12 df) ! k = cells df ! (length (cells df) - 12 + k)"
  using assms by (simp_all add: iloc_last12_def Let_def)

lemma month_rows_last12:
  assumes "12 \<le> length (cells df)" and "k < 12"
  shows "hd (month_rows (iloc_last12 df) (month (first df + int (length (cells df) - 12 + k))))
           = (first df + int (length (cells df) - 12 + k), cells df ! (length (cells df) - 12 + k))"
proof -
  let ?tr = "iloc_last12 df"
  let ?d = "length (cells df) - 12"
  let ?zs = "zip (index ?tr) (cells ?tr)"
  note tr = iloc_last12_fields [OF assms(1)]
  have len: "length ?zs = 12" by (simp add: index_def tr(2))
  have nth: "?zs ! i = (first df + int (?d + i), cells df ! (?d + i))" if "i < 12" for i
    using that by (simp add: index_def tr)
  let ?P = "\<lambda>(p, r :: flt list). month p = month (first df + int (?d + k))"
  have "hd (filter ?P ?zs) = ?zs ! k"
  proof (rule hd_filter_first)
    show "k < length ?zs" using assms(2) len by simp
    show "?P (?zs ! k)" using assms(2) by (simp add: nth)
    show "\<forall>i<k. \<not> ?P (?zs ! i)"
    proof (intro allI impI)
      fix i assume i: "i < k"
      then have i12: "i < 12" using assms(2) by simp
      have "month (first df + int ?d + int i) \<noteq> month (first df + int ?d + int k)"
        using month_shift [of "first df + int ?d" i k] i i12 assms(2) by auto
      then show "\<not> ?P (?zs ! i)" by (simp add: nth [OF i12] add.assoc)
    qed
  qed
  then show ?thesis unfolding month_rows_def using assms(2) by (simp add: nth)
qed

lemma months_present:
  assumes "12 \<le> length (cells df)"
  shows "\<forall>m\<in>set [1..12]. month_rows (iloc_last12 df) m \<noteq> []"
proof
  fix m :: int assume m: "m \<in> set [1..12]"
  let ?tr = "iloc_last12 df"
  note tr = iloc_last12_fields [OF assms(1)]
  define k where "k = nat ((m - 1 - first ?tr) mod 12)"
  have k: "k < 12" unfolding k_def by simp
  have mk: "month (first ?tr + int k) = m"
    using m unfolding k_def month_def by simp presburger
  have "(first ?tr + int k, cells ?tr ! k) \<in> set (zip (index ?tr) (cells ?tr))"
    using k by (auto simp: set_zip index_def tr(2) intro!: exI [of _ k])
  then have "(first ?tr + int k, cells ?tr ! k) \<in> set (month_rows ?tr m)"
    unfolding month_rows_def using mk by simp
  then show "month_rows ?tr m \<noteq> []" by auto
qed

lemma spread_last12:
  assumes "12 \<le> length (cells df)"
  shows "\<exists>other. spread_frame_of (iloc_last12 df) [1..12] df = (Inr (), other)
           \<and> length (cells other) = length (cells df)
           \<and> drop (length (cells df) - 12) (cells other) = drop (length (cells df) - 12) (cells df)"
proof -
  let ?n = "length (cells df)"
  from spread_frame_of_ok [OF months_present [OF assms], of df]
  obtain other where o: "spread_frame_of (iloc_last12 df) [1..12] df = (Inr (), other)"
    "length (cells other) = ?n"
    and rows: "\<forall>i<?n. cells other ! i =
                  (if month (first df + int i) \<in> set [1..12]
                   then snd (hd (month_rows (iloc_last12 df) (month (first df + int i))))
                   else cells df ! i)"
    by blast
  have "drop (?n - 12) (cells other) = drop (?n - 12) (cells df)"
  proof (rule nth_equalityI)
    show "length (drop (?n - 12) (cells other)) = length (drop (?n - 12) (cells df))"
      by (simp add: o(2))
  next
    fix k assume "k < length (drop (?n - 12) (cells other))"
    then have k: "k < 12" using assms o(2) by simp
    then have i: "?n - 12 + k < ?n" using assms by simp
    have "cells other ! (?n - 12 + k)
        = snd (hd (month_rows (iloc_last12 df) (month (first df + int (?n - 12 + k)))))"
      using rows i month_range by (simp del: set_upto)
    also have "\<dots> = cells df ! (?n - 12 + k)"
      by (simp only: month_rows_last12 [OF assms k] snd_conv)
    finally show "drop (?n - 12) (cells other) ! k = drop (?n - 12) (cells df) ! k"
      using i o(2) by simp
  qed
  with o show ?thesis by blast
qed

subsection \<open>The column of a station in the correlation table\<close>

lemma col_pos_Some:
  assumes "col_pos c ls = Some j"
  shows "j < length ls" and "ls ! j = c"
proof -
  from assms obtain js where "filter (\<lambda>j. ls ! j = c) [0..<length ls] = j # js"
    by (auto simp: col_pos_def split: list.splits)
  then have "j \<in> set (filter (\<lambda>j. ls ! j = c) [0..<length ls])" by simp
  then show "j < length ls" and "ls ! j = c" by simp_all
qed

lemma corr_table_entries:
  assumes "monthly df" and "12 \<le> length (cells df)"
  shows "\<exists>other t. corr_table_of df = Inr t \<and> t_labels t = labels df
           \<and> entries t = map (\<lambda>i. (first df + int i, rolling_row df other i))
                            (filter (\<lambda>i. month (first df + int i) = month (last (index df)))
                                    [0..<length (cells df)])
           \<and> length (cells other) = length (cells df)
           \<and> drop (length (cells df) - 12) (cells other) = drop (length (cells df) - 12) (cells df)"
proof -
  let ?n = "length (cells df)"
  let ?tr = "iloc_last12 df"
  from spread_last12 [OF assms(2)]
  obtain other where sp: "spread_frame_of ?tr [1..12] df = (Inr (), other)"
    and len: "length (cells other) = ?n"
    and dr: "drop (?n - 12) (cells other) = drop (?n - 12) (cells df)"
    by blast
  note tr = iloc_last12_fields [OF assms(2)]
  have ne: "cells ?tr \<noteq> []" using tr(2) by auto
  then have ix: "index ?tr \<noteq> []" by (simp add: index_def)
  have ne': "cells df \<noteq> []" using assms(2) by auto
  have "last (index ?tr) = first df + int (?n - 12) + int (12 - 1)"
    using last_index [OF ne] by (simp only: tr(1,2))
  also have "\<dots> = first df + int (?n - 1)" using assms(2) by simp
  also have "\<dots> = last (index df)" by (simp only: last_index [OF ne'])
  finally have lm: "last (index ?tr) = last (index df)" .
  let ?t = "\<lparr>index_name = Some ''mes_final'', t_labels = labels df,
             entries = month_rows (rolling_corr df other) (month (last (index ?tr)))\<rparr>"
  have "corr_table_of df = Inr ?t" by (rule corr_table_of_ok [OF assms(1) sp ix])
  moreover have "entries ?t = map (\<lambda>i. (first df + int i, rolling_row df other i))
                            (filter (\<lambda>i. month (first df + int i) = month (last (index df))) [0..<?n])"
    by (simp add: month_rows_rolling_corr lm)
  moreover have "t_labels ?t = labels df" by simp
  ultimately show ?thesis using len dr by blast
qed

lemma ranked_column:
  assumes "monthly df" and "12 \<le> length (cells df)" and "col_pos c (labels df) = Some j"
  shows "\<exists>t col. corr_table_of df = Inr t \<and> getitem_col t c = Some col
           \<and> map fst col = filter (\<lambda>p. month p = month (last (index df))) (index df)
           \<and> last (index df) \<in> set (map fst col)"
proof -
  let ?n = "length (cells df)"
  let ?P = "\<lambda>i. month (first df + int i) = month (last (index df))"
  from corr_table_entries [OF assms(1,2)]
  obtain other t where t: "corr_table_of df = Inr t" and lab: "t_labels t = labels df"
    and en: "entries t = map (\<lambda>i. (first df + int i, rolling_row df other i)) (filter ?P [0..<?n])"
    by blast
  define col where "col = map (\<lambda>i. (first df + int i, rolling_row df other i ! j)) (filter ?P [0..<?n])"
  have gc: "getitem_col t c = Some col"
    by (simp add: getitem_col_def lab assms(3) en col_def comp_def)
  have mf: "map fst col = filter (\<lambda>p. month p = month (last (index df))) (index df)"
    by (simp add: col_def index_def filter_map comp_def)
  have ne: "cells df \<noteq> []" using assms(2) by auto
  then have "index df \<noteq> []" by (simp add: index_def)
  then have "last (index df) \<in> set (index df)" by (rule last_in_set)
  then have mem: "last (index df) \<in> set (map fst col)" by (simp only: mf set_filter) simp
  show ?thesis
    apply (rule_tac x = t in exI)
    apply (rule_tac x = col in exI)
    using t gc mf mem apply (intro conjI)
       apply assumption+
    done
qed

subsection \<open>The ranked list\<close>

text \<open>
  Claim C5, as far as it holds.  For a monthly series of at least twelve rows (so for
  one of 24 rows) the column of a station in the correlation table has one entry for
  each month of the series that has the calendar month of the last one, in chronological
  order, the last month of the series (the reference window) among them.  The ranked
  list holds the entries of that column, each as often as the column does, ordered by
  correlation: no entry is followed by one of greater correlation, and \<open>NaN\<close> entries come
  last.  The order among entries of equal correlation is not stated: \<open>sort_values\<close> is
  called with the default kind of sort, which is not stable.  Whatever that order is, the
  correlations read by rank are the same: every arrangement of the column that is
  ordered so has the sequence of correlations of the ranked list.  Nothing is stated on
  which window has rank 0, nor on the value of its correlation.
\<close>

theorem ranked_list:
  assumes "a < length h" and "monthly (h ! a)" and "12 \<le> length (cells (h ! a))"
    and "col_pos c (labels (h ! a)) = Some j"
  shows "\<exists>t col. fst (calc_corr_last12 a h) = Inr t \<and> getitem_col t c = Some col
     \<and> map fst col = filter (\<lambda>p. month p = month (last (index (h ! a)))) (index (h ! a))
     \<and> last (index (h ! a)) \<in> set (map fst col)
     \<and> mset (sort_values_desc col) = mset col
     \<and> (\<forall>i k. i < k \<and> k < length col \<longrightarrow>
            \<not> flt_lt (snd (sort_values_desc col ! i)) (snd (sort_values_desc col ! k))
          \<and> (snd (sort_values_desc col ! i) = NaN \<longrightarrow> snd (sort_values_desc col ! k) = NaN))
     \<and> descending_nan_last (map snd (sort_values_desc col))
     \<and> (\<forall>tc. mset tc = mset col \<and> descending_nan_last (map snd tc)
              \<longrightarrow> map snd tc = map snd (sort_values_desc col))"
proof -
  let ?df = "h ! a"
  from ranked_column [OF assms(2-4)]
  obtain t col where t: "corr_table_of ?df = Inr t" and gc: "getitem_col t c = Some col"
    and mf: "map fst col = filter (\<lambda>p. month p = month (last (index ?df))) (index ?df)"
    and mem: "last (index ?df) \<in> set (map fst col)"
    by blast
  let ?tc = "sort_values_desc col"
  have c1: "fst (calc_corr_last12 a h) = Inr t" using calc_corr_value [OF assms(1)] t by simp
  have c2: "mset ?tc = mset col" by (simp add: sort_values_desc_def)
  have c3: "\<forall>i k. i < k \<and> k < length col \<longrightarrow>
            \<not> flt_lt (snd (?tc ! i)) (snd (?tc ! k))
          \<and> (snd (?tc ! i) = NaN \<longrightarrow> snd (?tc ! k) = NaN)"
  proof (intro allI impI conjI)
    fix i k assume "i < k \<and> k < length col"
    then have ik: "i < k" and k: "k < length ?tc" by simp_all
    show "\<not> flt_lt (snd (?tc ! i)) (snd (?tc ! k))"
      by (rule sort_values_desc_descending(1) [OF ik k])
    show "snd (?tc ! k) = NaN" if "snd (?tc ! i) = NaN"
      using that by (rule sort_values_desc_descending(2) [OF ik k])
  qed
  have c4: "descending_nan_last (map snd ?tc)" by (rule descending_sort_values_desc)
  have c5: "\<forall>tc. mset tc = mset col \<and> descending_nan_last (map snd tc)
              \<longrightarrow> map snd tc = map snd ?tc"
    using descending_values_unique by blast
  show ?thesis
    apply (rule_tac x = t in exI)
    apply (rule_tac x = col in exI)
    using c1 gc mf mem c2 c3 c4 c5 apply (intro conjI)
           apply assumption+
    done
qed

theorem ranked_list_witness:
  "0 < length [ex_df] \<and> monthly ([ex_df] ! 0) \<and> 12 \<le> length (cells ([ex_df] ! 0))
   \<and> col_pos 6 (labels ([ex_df] ! 0)) = Some 0
   \<and> fst (calc_corr_last12 0 [ex_df]) = Inr ex_table_val
   \<and> getitem_col ex_table_val 6 = Some [(24011, Fin 0), (24023, Fin 1)]
   \<and> mset [(24023, Fin 1), (24011, Fin 0)] = mset [(24011::period, Fin 0), (24023, Fin 1)]
   \<and> map snd (sort_values_desc [(24011, Fin 0), (24023, Fin 1)])
       = map snd [(24023::period, Fin 1), (24011, Fin 0)]
   \<and> last (index ([ex_df] ! 0)) \<in> set (map fst [(24011, Fin 0), (24023, Fin 1)])"
proof -
  have a: "(0::nat) < length [ex_df]" by simp
  have b: "monthly ([ex_df] ! 0)" by (simp add: ex_df_def)
  have c: "12 \<le> length (cells ([ex_df] ! 0))" by (simp add: ex_df_def)
  have d: "col_pos 6 (labels ([ex_df] ! 0)) = Some 0" by code_simp
  have t: "fst (calc_corr_last12 0 [ex_df]) = Inr ex_table_val"
    using calc_corr_value [OF a] by (simp add: ex_table ex_table_val_def)
  from ranked_list [OF a b c d] obtain t col where "fst (calc_corr_last12 0 [ex_df]) = Inr t"
    "getitem_col t 6 = Some col"
    and m: "last (index ([ex_df] ! 0)) \<in> set (map fst col)"
    and r: "\<forall>tc. mset tc = mset col \<and> descending_nan_last (map snd tc)
              \<longrightarrow> map snd tc = map snd (sort_values_desc col)"
    by blast
  with t have col: "col = [(24011, Fin 0), (24023, Fin 1)]" by (simp add: ex_col6)
  have p: "mset [(24023, Fin 1), (24011, Fin 0)] = mset [(24011::period, Fin 0), (24023, Fin 1)]"
    by simp
  have o: "descending_nan_last (map snd [(24023::period, Fin 1), (24011, Fin 0)])" by simp
  from r p o have v: "map snd [(24023::period, Fin 1), (24011, Fin 0)]
      = map snd (sort_values_desc [(24011, Fin 0), (24023, Fin 1)])"
    unfolding col by blast
  show ?thesis
    apply (intro conjI)
            apply (rule a)
           apply (rule b)
          apply (rule c)
         apply (rule d)
        apply (rule t)
       apply (rule ex_col6)
      apply (rule p)
     apply (rule v [symmetric])
    apply (rule m [unfolded col])
    done
qed

text \<open>Station 74 of the series of two years is zero throughout: each of its correlations
  is \<open>NaN\<close>, that of the reference window, which ends in December 2001, among them, so
  the entry of rank 0 has correlation \<open>NaN\<close>, not 1, whichever window it is.\<close>

theorem ranked_list_counterexample:
  "fst (calc_corr_last12 0 [ex_df]) = Inr ex_table_val
   \<and> getitem_col ex_table_val 74 = Some [(24011, NaN), (24023, NaN)]
   \<and> last (index ex_df) = 24023
   \<and> map snd (sort_values_desc [(24011, NaN), (24023, NaN)]) = [NaN, NaN]
   \<and> snd (sort_values_desc [(24011, NaN), (24023, NaN)] ! 0) \<noteq> Fin 1"
proof -
  have a: "(0::nat) < length [ex_df]" by simp
  have t: "fst (calc_corr_last12 0 [ex_df]) = Inr ex_table_val"
    using calc_corr_value [OF a] by (simp add: ex_table ex_table_val_def)
  have l: "last (index ex_df) = 24023" by code_simp
  from t l show ?thesis by (simp add: ex_col74 ex_top74)
qed

end
